theory Spec2Isabelle
  imports Complex_Main "HOL-Library.Char_ord" "HOL-Library.List_Lexorder"
begin

section \<open>Python values shared by both scripts\<close>

text \<open>
  The repository is two Python scripts: \<^verbatim>\<open>app.py\<close>, a Streamlit dashboard over the
  \<^verbatim>\<open>byregion\<close> sheet, and \<^verbatim>\<open>summit-match.py\<close>, which joins that sheet with the
  \<^verbatim>\<open>gm-sota\<close> sheet. Strings are \<open>string\<close>; a spreadsheet cell that pandas reads
  as NaN is \<open>None\<close>; every exception the scripts can raise is a value of \<open>error\<close>.
\<close>

datatype error = KeyError | ValueError | TypeError | StreamlitAPIException

text \<open>\<^verbatim>\<open>Series.dropna()\<close>: the present values, in order.\<close>

fun dropna :: "'a option list \<Rightarrow> 'a list" where
  "dropna [] = []"
| "dropna (None # xs) = dropna xs"
| "dropna (Some x # xs) = x # dropna xs"

text \<open>\<^verbatim>\<open>Series.unique()\<close>: the distinct values in order of first appearance.\<close>

fun unique_acc :: "'a list \<Rightarrow> 'a list \<Rightarrow> 'a list" where
  "unique_acc seen [] = []"
| "unique_acc seen (x # xs) =
     (if x \<in> set seen then unique_acc seen xs else x # unique_acc (x # seen) xs)"

definition unique :: "'a list \<Rightarrow> 'a list" where
  "unique xs = unique_acc [] xs"

section \<open>app.py: the two region extractors\<close>

text \<open>The character class \<^verbatim>\<open>[A-Z]\<close>.\<close>

definition is_upper :: "char \<Rightarrow> bool" where
  "is_upper c = (CHR ''A'' \<le> c \<and> c \<le> CHR ''Z'')"

text \<open>
  \<^verbatim>\<open>re.search\<close> tries the pattern at every start position from left to right (the
  position after the last character included) and returns the first match. The
  argument \<open>m\<close> is the pattern anchored at the start of its input, returning group 1.
\<close>

fun re_search :: "(string \<Rightarrow> string option) \<Rightarrow> string \<Rightarrow> string option" where
  "re_search m [] = m []"
| "re_search m (c # cs) = (case m (c # cs) of Some g \<Rightarrow> Some g | None \<Rightarrow> re_search m cs)"

text \<open>
  The pattern \<^verbatim>\<open>GM/([A-Z]+)-\<close> anchored: the literal \<^verbatim>\<open>GM/\<close>, then the greedy
  \<^verbatim>\<open>[A-Z]+\<close>. The engine first takes the longest run of capitals and, while the
  next character is not \<^verbatim>\<open>-\<close>, gives one capital back; so the candidate group
  lengths are tried from the length of the run down to 1.
\<close>

definition match_gm_region :: "string \<Rightarrow> string option" where
  "match_gm_region s =
     (if take 3 s = ''GM/'' then
        (let r = drop 3 s; run = takeWhile is_upper r in
         case find (\<lambda>n. take 1 (drop n r) = ''-'') (rev [1..<Suc (length run)]) of
           Some n \<Rightarrow> Some (take n r)
         | None \<Rightarrow> None)
      else None)"

text \<open>The pattern \<^verbatim>\<open>/([A-Z]{2})-\<close> anchored.\<close>

definition match_slash_region :: "string \<Rightarrow> string option" where
  "match_slash_region s =
     (case s of
        c0 # c1 # c2 # c3 # _ \<Rightarrow>
          (if c0 = CHR ''/'' \<and> is_upper c1 \<and> is_upper c2 \<and> c3 = CHR ''-''
           then Some [c1, c2] else None)
      | _ \<Rightarrow> None)"

text \<open>
  \<^verbatim>\<open>df['SOTA Ref'].str.extract(r'GM/([A-Z]+)-')\<close> on one cell: NaN stays NaN, a
  string without a match gives NaN.
\<close>

definition str_extract_gm :: "string option \<Rightarrow> string option" where
  "str_extract_gm cell = (case cell of None \<Rightarrow> None | Some s \<Rightarrow> re_search match_gm_region s)"

text \<open>\<^verbatim>\<open>extract_sota_region(sota_ref)\<close> on a string.\<close>

definition extract_sota_region :: "string \<Rightarrow> string" where
  "extract_sota_region sota_ref =
     (case re_search match_slash_region sota_ref of Some g \<Rightarrow> g | None \<Rightarrow> [])"

text \<open>
  \<^verbatim>\<open>df['SOTA Ref'].apply(extract_sota_region)\<close>: \<^verbatim>\<open>re.search\<close> raises TypeError on
  a NaN cell (a float), and the exception ends the script.
\<close>

fun apply_extract_sota_region :: "string option list \<Rightarrow> error + string list" where
  "apply_extract_sota_region [] = Inr []"
| "apply_extract_sota_region (None # cells) = Inl TypeError"
| "apply_extract_sota_region (Some s # cells) =
     (case apply_extract_sota_region cells of
        Inl e \<Rightarrow> Inl e
      | Inr rs \<Rightarrow> Inr (extract_sota_region s # rs))"

text \<open>The pattern \<^verbatim>\<open>/([A-Z]{2})-\<close> occurs in a string, said without the matcher.\<close>

definition slash_pattern_occurs :: "string \<Rightarrow> bool" where
  "slash_pattern_occurs s =
     (\<exists>pre a b post. s = pre @ CHR ''/'' # a # b # CHR ''-'' # post \<and> is_upper a \<and> is_upper b)"

section \<open>app.py: the loaded sheet and the sidebar\<close>

text \<open>
  One row of the \<^verbatim>\<open>byregion\<close> sheet, with the columns the dashboard computes on
  (\<^verbatim>\<open>SOTA Ref\<close>, \<^verbatim>\<open>Area\<close>, \<^verbatim>\<open>Area name\<close>, \<^verbatim>\<open>New gm region\<close>, \<^verbatim>\<open>Points\<close>). The
  frame \<^verbatim>\<open>df\<close> is the list of its rows, so all columns have the same length.
\<close>

record summit =
  sota_ref :: "string option"
  area :: "string option"
  area_name :: "string option"
  new_gm_region :: "string option"
  points :: "rat option"

definition sota_regions :: "string list" where
  "sota_regions = [''SS'', ''ES'', ''CS'', ''SI'', ''WS'', ''NS'']"

text \<open>\<^verbatim>\<open>area_list = sorted(df['Area'].dropna().unique())\<close>\<close>

definition area_list :: "summit list \<Rightarrow> string list" where
  "area_list df = sort (unique (dropna (map area df)))"

text \<open>
  \<^verbatim>\<open>area_name_map = df.set_index('Area')['Area name'].to_dict()\<close>: for an Area that
  labels several rows the last row's name stays.
\<close>

definition area_name_map :: "summit list \<Rightarrow> (string option \<rightharpoonup> string option)" where
  "area_name_map df = map_of (rev (map (\<lambda>r. (area r, area_name r)) df))"

text \<open>\<^verbatim>\<open>str(x)\<close> inside the f-string: a NaN prints as \<^verbatim>\<open>nan\<close>.\<close>

definition py_str :: "string option \<Rightarrow> string" where
  "py_str x = (case x of None \<Rightarrow> ''nan'' | Some s \<Rightarrow> s)"

text \<open>
  \<^verbatim>\<open>Series.mode()\<close>: NaN dropped, the values of the highest count, sorted. An empty
  (or all-NaN) series has the empty mode.
\<close>

definition mode :: "string option list \<Rightarrow> string list" where
  "mode xs =
     (let vs = dropna xs; us = unique vs; top = fold max (map (count_list vs) us) 0
      in sort (filter (\<lambda>v. count_list vs v = top) us))"

text \<open>
  \<^verbatim>\<open>default = df[df['Area'] == area]['New gm region'].mode()\<close> and
  \<^verbatim>\<open>default.iat[0] if not default.empty and default.iat[0] in sota_regions else 'SS'\<close>
\<close>

definition default_value :: "summit list \<Rightarrow> string \<Rightarrow> string" where
  "default_value df a =
     (let default = mode (map new_gm_region (filter (\<lambda>r. area r = Some a) df))
      in if default \<noteq> [] \<and> hd default \<in> set sota_regions then hd default else ''SS'')"

text \<open>\<^verbatim>\<open>list.index(x)\<close>: the first position of \<open>x\<close>, ValueError when it is absent.\<close>

fun list_index :: "'a list \<Rightarrow> 'a \<Rightarrow> error + nat" where
  "list_index [] x = Inl ValueError"
| "list_index (y # ys) x =
     (if y = x then Inr 0
      else case list_index ys x of Inl e \<Rightarrow> Inl e | Inr i \<Rightarrow> Inr (Suc i))"

text \<open>
  One sidebar widget as the script creates it, with the value the call returned.
  \<^verbatim>\<open>st.sidebar.selectbox(label, options, index=..., key=...)\<close> raises when the index
  is outside the options; otherwise it returns the option the user picked under that
  key in this session (\<open>session key = Some j\<close>), or the option at \<open>index\<close> while the user
  has not touched the widget.
\<close>

record control =
  label :: string
  options :: "string list"
  index :: nat
  key :: string
  selected :: string

definition selectbox ::
  "(string \<Rightarrow> nat option) \<Rightarrow> string \<Rightarrow> string list \<Rightarrow> nat \<Rightarrow> string \<Rightarrow> error + control" where
  "selectbox session lbl opts i k =
     (if i < length opts then
        Inr \<lparr>label = lbl, options = opts, index = i, key = k,
             selected = (case session k of
                           Some j \<Rightarrow> if j < length opts then opts ! j else opts ! i
                         | None \<Rightarrow> opts ! i)\<rparr>
      else Inl StreamlitAPIException)"

text \<open>The body of \<^verbatim>\<open>for area in area_list\<close>, up to the \<^verbatim>\<open>selectbox\<close> call.\<close>

definition sidebar_step :: "summit list \<Rightarrow> (string \<Rightarrow> nat option) \<Rightarrow> string \<Rightarrow> error + control" where
  "sidebar_step df session a =
     (let name = (case area_name_map df (Some a) of None \<Rightarrow> Some a | Some n \<Rightarrow> n);
          lbl = py_str name @ '' ('' @ a @ '')''
      in case list_index sota_regions (default_value df a) of
           Inl e \<Rightarrow> Inl e
         | Inr i \<Rightarrow> selectbox session lbl sota_regions i a)"

text \<open>
  The loop: the widgets in the order they are created, and the dictionary
  \<^verbatim>\<open>area_to_region\<close>, to which each pass adds \<^verbatim>\<open>area_to_region[area] = region\<close>.
\<close>

fun sidebar_loop ::
  "summit list \<Rightarrow> (string \<Rightarrow> nat option) \<Rightarrow> string list \<Rightarrow>
   control list \<times> (string \<rightharpoonup> string) \<Rightarrow> error + control list \<times> (string \<rightharpoonup> string)" where
  "sidebar_loop df session [] acc = Inr acc"
| "sidebar_loop df session (a # as) (ctrls, area_to_region) =
     (case sidebar_step df session a of
        Inl e \<Rightarrow> Inl e
      | Inr c \<Rightarrow> sidebar_loop df session as (ctrls @ [c], area_to_region(a \<mapsto> selected c)))"

definition sidebar ::
  "summit list \<Rightarrow> (string \<Rightarrow> nat option) \<Rightarrow> error + control list \<times> (string \<rightharpoonup> string)" where
  "sidebar df session = sidebar_loop df session (area_list df) ([], Map.empty)"

text \<open>\<^verbatim>\<open>Series.map(d)\<close> with a dictionary: a NaN and a value that is no key give NaN.\<close>

definition series_map :: "('a \<rightharpoonup> 'b) \<Rightarrow> 'a option list \<Rightarrow> 'b option list" where
  "series_map d xs = map (\<lambda>x. case x of None \<Rightarrow> None | Some a \<Rightarrow> d a) xs"

text \<open>\<^verbatim>\<open>df['Assigned Region'] = df['Area'].map(area_to_region)\<close>\<close>

definition assigned_region :: "summit list \<Rightarrow> (string \<rightharpoonup> string) \<Rightarrow> string option list" where
  "assigned_region df area_to_region = series_map area_to_region (map area df)"

text \<open>\<^verbatim>\<open>df['New gm region'] = df['Area'].map(area_to_region)\<close>\<close>

definition update_new_gm_region :: "summit list \<Rightarrow> (string \<rightharpoonup> string) \<Rightarrow> summit list" where
  "update_new_gm_region df area_to_region =
     map (\<lambda>(r, v). r\<lparr>new_gm_region := v\<rparr>) (zip df (series_map area_to_region (map area df)))"

text \<open>
  The frame handed to \<^verbatim>\<open>df.to_csv(index=False)\<close> for the download button. The script
  reaches that line only when line 26 did not raise and the sidebar was built. The
  model stops at the frame; the CSV text is the writer's rendering of it.
\<close>

definition download_frame :: "summit list \<Rightarrow> (string \<Rightarrow> nat option) \<Rightarrow> error + summit list" where
  "download_frame df session =
     (case apply_extract_sota_region (map sota_ref df) of
        Inl e \<Rightarrow> Inl e
      | Inr original_sota_region \<Rightarrow>
          (case sidebar df session of
             Inl e \<Rightarrow> Inl e
           | Inr (ctrls, area_to_region) \<Rightarrow> Inr (update_new_gm_region df area_to_region)))"

text \<open>A value of the highest count among the present values of a series.\<close>

definition most_frequent :: "string option list \<Rightarrow> string \<Rightarrow> bool" where
  "most_frequent xs v =
     (Some v \<in> set xs \<and> (\<forall>w. count_list xs (Some w) \<le> count_list xs (Some v)))"

section \<open>app.py: the region comparison table\<close>

text \<open>
  \<^verbatim>\<open>Series.value_counts()\<close>: NaN dropped, one entry per distinct value with the number
  of its occurrences, highest count first (among equal counts the order is pandas'
  choice, taken here as first appearance; nothing below depends on the order of rows).
\<close>

definition value_counts :: "'a option list \<Rightarrow> ('a \<times> nat) list" where
  "value_counts xs =
     (let vs = dropna xs
      in sort_key (\<lambda>(v, n). - int n) (map (\<lambda>v. (v, count_list vs v)) (unique vs)))"

text \<open>
  \<^verbatim>\<open>pd.concat([a, b], axis=1)\<close> of two indexed series: one row per label of either
  index, a missing entry being NaN.
\<close>

definition concat_axis1 ::
  "('k \<times> 'v) list \<Rightarrow> ('k \<times> 'v) list \<Rightarrow> ('k \<times> 'v option \<times> 'v option) list" where
  "concat_axis1 a b = map (\<lambda>k. (k, map_of a k, map_of b k)) (unique (map fst a @ map fst b))"

text \<open>\<^verbatim>\<open>.fillna(0).astype(int)\<close> on one entry.\<close>

definition fillna0_int :: "nat option \<Rightarrow> int" where
  "fillna0_int x = (case x of None \<Rightarrow> 0 | Some n \<Rightarrow> int n)"

text \<open>
  \<^verbatim>\<open>comparison_df\<close>: the rows are (region, Original, New), from the columns
  \<^verbatim>\<open>Original Region\<close> and \<^verbatim>\<open>Assigned Region\<close>.
\<close>

definition comparison_df ::
  "string option list \<Rightarrow> string option list \<Rightarrow> (string \<times> int \<times> int) list" where
  "comparison_df original assigned =
     (let original_counts = value_counts original;
          assigned_counts = value_counts assigned
      in map (\<lambda>(k, x, y). (k, fillna0_int x, fillna0_int y))
           (concat_axis1 original_counts assigned_counts))"

text \<open>\<^verbatim>\<open>df['Original Region'] = df['SOTA Ref'].str.extract(r'GM/([A-Z]+)-')\<close>\<close>

definition original_region :: "summit list \<Rightarrow> string option list" where
  "original_region df = map (\<lambda>r. str_extract_gm (sota_ref r)) df"

section \<open>summit-match.py: frames, the spatial index and the join\<close>

text \<open>
  A spreadsheet cell as pandas reads it: a number, a text or NaN (an empty cell). Numbers
  are the rationals that the finite doubles are. A frame is the list of its columns in
  order, each a name and its cells; pandas allows two columns of one name. The row labels
  of a frame that \<^verbatim>\<open>read_excel\<close> returns are the positions \<open>0 ..< nrows\<close>.
\<close>

datatype cell = Num rat | Str string | NaN

type_synonym frame = "(string \<times> cell list) list"

























section \<open>Python floats\<close>

text \<open>
  A finite Python float is an IEEE 754 binary64 number, here the rational it denotes. An
  arithmetic operation returns the exact result rounded to the nearest binary64 number,
  ties to the even significand. The exponent of a rational is the largest \<open>e\<close> between
  \<open>emin\<close> and \<open>emax\<close> with \<open>2\<^sup>e \<le> \<bar>x\<bar>\<close>, and \<open>emin\<close> (the subnormal range) when there is
  none; the spacing of the binary64 numbers around \<open>x\<close> is \<open>2\<^sup>e\<^sup>-\<^sup>5\<^sup>2\<close>. Overflow to infinity
  (results from \<open>2\<^sup>1\<^sup>0\<^sup>2\<^sup>4\<close> on) is not modelled; the scripts multiply numbers up to 1 by 255 and
  divide a count by a larger count.
\<close>

definition emin :: int where
  "emin = -1022"

definition emax :: int where
  "emax = 1023"

definition binary64_exponent :: "rat \<Rightarrow> int" where
  "binary64_exponent x = fold max (filter (\<lambda>e. 2 powi e \<le> \<bar>x\<bar>) [emin..emax]) emin"

definition round_half_even :: "rat \<Rightarrow> int" where
  "round_half_even x =
     (let f = \<lfloor>x\<rfloor>; r = x - of_int f
      in if r < 1/2 then f else if 1/2 < r then f + 1 else if even f then f else f + 1)"

definition round_binary64 :: "rat \<Rightarrow> rat" where
  "round_binary64 x =
     (let u = 2 powi (binary64_exponent x - 52) in of_int (round_half_even (x / u)) * u)"


definition fdiv :: "rat \<Rightarrow> rat \<Rightarrow> rat" where
  "fdiv a b = round_binary64 (a / b)"

definition fadd :: "rat \<Rightarrow> rat \<Rightarrow> rat" where
  "fadd a b = round_binary64 (a + b)"


section \<open>app.py: marker colours\<close>







section \<open>app.py: the proportional distribution table\<close>

text \<open>
  A table of counts: the column labels (values of \<^verbatim>\<open>Points\<close>) and the rows, each an index
  label with one cell per column.

  \<^verbatim>\<open>df.groupby([key, 'Points']).size().unstack(fill_value=0)\<close>: rows in which the key or
  \<^verbatim>\<open>Points\<close> is NaN are dropped; the index holds the keys and the columns the points of
  the remaining rows, both sorted; a cell is the number of rows of that key and points.
\<close>

fun present_pairs :: "('a option \<times> 'b option) list \<Rightarrow> ('a \<times> 'b) list" where
  "present_pairs [] = []"
| "present_pairs ((Some k, Some p) # ps) = (k, p) # present_pairs ps"
| "present_pairs (x # ps) = present_pairs ps"

definition groupby_size_unstack ::
  "(string option \<times> rat option) list \<Rightarrow> rat list \<times> (string \<times> nat list) list" where
  "groupby_size_unstack ps =
     (let present = present_pairs ps;
          idx = sort (unique (map fst present));
          cols = sort (unique (map snd present))
      in (cols, map (\<lambda>k. (k, map (\<lambda>p. count_list present (k, p)) cols)) idx))"

text \<open>\<^verbatim>\<open>t.index = [f"{r} (original)" for r in t.index]\<close>, with the suffix as parameter.\<close>

definition relabel ::
  "string \<Rightarrow> rat list \<times> (string \<times> nat list) list \<Rightarrow> rat list \<times> (string \<times> nat list) list" where
  "relabel suffix t = (fst t, map (\<lambda>(r, cells). (r @ suffix, cells)) (snd t))"

text \<open>
  \<^verbatim>\<open>pd.concat([original, new])\<close>: the rows of both tables over the union of their
  columns; a cell of a column that the row's table does not have is NaN.
\<close>

definition concat_tables ::
  "rat list \<times> (string \<times> nat list) list \<Rightarrow> rat list \<times> (string \<times> nat list) list \<Rightarrow>
   rat list \<times> (string \<times> nat option list) list" where
  "concat_tables t1 t2 =
     (let cols = unique (fst t1 @ fst t2)
      in (cols,
          map (\<lambda>(r, cells). (r, map (\<lambda>p. map_of (zip (fst t1) cells) p) cols)) (snd t1) @
          map (\<lambda>(r, cells). (r, map (\<lambda>p. map_of (zip (fst t2) cells) p) cols)) (snd t2)))"

text \<open>The loop that builds \<^verbatim>\<open>ordered_index\<close> (lines 148 to 153).\<close>

definition ordered_index :: "string list \<Rightarrow> string list \<Rightarrow> string list" where
  "ordered_index regions labels =
     concat (map (\<lambda>r. (if r @ '' (original)'' \<in> set labels then [r @ '' (original)''] else []) @
                       (if r @ '' (new)'' \<in> set labels then [r @ '' (new)''] else []))
              regions)"

text \<open>\<^verbatim>\<open>combined.loc[ordered_index]\<close>: for each label in turn, the rows of that label.\<close>

definition loc_labels :: "(string \<times> 'v) list \<Rightarrow> string list \<Rightarrow> (string \<times> 'v) list" where
  "loc_labels rws labels = concat (map (\<lambda>l. filter (\<lambda>(r, cells). r = l) rws) labels)"

text \<open>
  The table \<^verbatim>\<open>combined.loc[ordered_index]\<close>. The script reaches it only when line 26
  did not raise; \<^verbatim>\<open>New gm region\<close> is the column that line 125 has set.
\<close>

definition combined_counts ::
  "summit list \<Rightarrow> (string \<rightharpoonup> string) \<Rightarrow> error + rat list \<times> (string \<times> nat option list) list" where
  "combined_counts df area_to_region =
     (case apply_extract_sota_region (map sota_ref df) of
        Inl e \<Rightarrow> Inl e
      | Inr original_sota_region \<Rightarrow>
          (let original = relabel '' (original)''
                 (groupby_size_unstack (zip (map Some original_sota_region) (map points df)));
               new = relabel '' (new)''
                 (groupby_size_unstack
                    (zip (series_map area_to_region (map area df)) (map points df)));
               combined = concat_tables original new;
               regions = sort (remdups original_sota_region);
               ordered = ordered_index regions (map fst (snd combined))
           in Inr (fst combined, loc_labels (snd combined) ordered)))"

text \<open>
  \<^verbatim>\<open>.sum(axis=1)\<close> of a row of counts: NaN is skipped. The counts are whole numbers far
  below \<open>2\<^sup>5\<^sup>3\<close>, which floats add without rounding, so the sum is the exact one.
\<close>

definition row_sum :: "nat option list \<Rightarrow> nat" where
  "row_sum cells = sum_list (dropna cells)"

text \<open>
  \<^verbatim>\<open>.div(sums, axis=0)\<close> on one row: every count is divided by the row's sum, a float
  division; NaN stays NaN, and a division by zero gives no finite number (\<open>None\<close>).
  The index labels of the table are distinct (\<open>combined_counts_labels_distinct\<close> below), so
  each row meets its own sum.
\<close>

definition div_row :: "nat option list \<Rightarrow> nat \<Rightarrow> rat option list" where
  "div_row cells s =
     map (\<lambda>cell. case cell of
                   None \<Rightarrow> None
                 | Some c \<Rightarrow> if s = 0 then None else Some (fdiv (of_nat c) (of_nat s))) cells"

definition percent_df ::
  "summit list \<Rightarrow> (string \<rightharpoonup> string) \<Rightarrow> error + rat list \<times> (string \<times> rat option list) list" where
  "percent_df df area_to_region =
     (case combined_counts df area_to_region of
        Inl e \<Rightarrow> Inl e
      | Inr (cols, rws) \<Rightarrow>
          Inr (cols, map (\<lambda>(r, cells). (r, div_row cells (row_sum cells))) rws))"

text \<open>
  The sum of a row of floats as Python adds them, from left to right, each addition
  rounded. The script does not compute it; it is how the sum of a row of the table is
  observed.
\<close>

definition float_sum :: "rat list \<Rightarrow> rat" where
  "float_sum xs = fold (\<lambda>x acc. fadd acc x) xs 0"

section \<open>Example inputs\<close>

text \<open>A small sheet and a session in which the user has picked the fifth option for area 17B.\<close>

definition ex_df :: "summit list" where
  "ex_df = [\<lparr>sota_ref = Some ''GM/SS-001'', area = Some ''17B'', area_name = Some ''Skye'',
              new_gm_region = Some ''ES'', points = Some 4\<rparr>,
            \<lparr>sota_ref = Some ''GM/WS-010'', area = Some ''01A'', area_name = None,
              new_gm_region = None, points = Some 2\<rparr>,
            \<lparr>sota_ref = Some ''GM/WS-011'', area = None, area_name = None,
              new_gm_region = Some ''WS'', points = None\<rparr>]"

definition ex_session :: "string \<Rightarrow> nat option" where
  "ex_session k = (if k = ''17B'' then Some 4 else None)"

definition ex_original :: "string option list" where
  "ex_original = [Some ''SS'', Some ''WS'', Some ''WS'']"

definition ex_assigned :: "string option list" where
  "ex_assigned = [Some ''ES'', Some ''SS'', None]"

definition ex_area_to_region :: "string \<rightharpoonup> string" where
  "ex_area_to_region = [''17B'' \<mapsto> ''ES'', ''01A'' \<mapsto> ''SS'']"

definition ex_df2 :: "summit list" where
  "ex_df2 = take 2 ex_df"






definition ex_six :: "summit list" where
  "ex_six =
     map (\<lambda>p. \<lparr>sota_ref = Some ''GM/SS-001'', area = Some ''17B'', area_name = Some ''Skye'',
               new_gm_region = Some ''SS'', points = Some p\<rparr>) [1, 2, 4, 6, 8, 10]"

definition ex_six_cells :: "rat option list" where
  "ex_six_cells =
     [Some (6004799503160661 / 36028797018963968),
      Some (6004799503160661 / 36028797018963968),
      Some (6004799503160661 / 36028797018963968),
      Some (6004799503160661 / 36028797018963968),
      Some (6004799503160661 / 36028797018963968),
      Some (6004799503160661 / 36028797018963968)]"

section \<open>Properties of the extractors\<close>

lemma not_upper_dash: "\<not> is_upper CHR ''-''"
  by (simp add: is_upper_def less_eq_char_def)

lemma match_gm_region_two:
  assumes "is_upper a" "is_upper b"
  shows "match_gm_region (''GM/'' @ [a, b] @ ''-'' @ rest) = Some [a, b]"
  using assms by (simp add: match_gm_region_def not_upper_dash)

lemma match_slash_region_Some:
  "match_slash_region s = Some g \<Longrightarrow>
   \<exists>a b post. s = CHR ''/'' # a # b # CHR ''-'' # post \<and> is_upper a \<and> is_upper b \<and> g = [a, b]"
  by (auto simp: match_slash_region_def split: list.splits if_splits)

lemma re_search_Some:
  "re_search m s = Some g \<Longrightarrow> \<exists>pre t. s = pre @ t \<and> m t = Some g"
proof (induction s)
  case Nil
  then show ?case by simp
next
  case (Cons c cs)
  show ?case
  proof (cases "m (c # cs)")
    case None
    with Cons obtain pre t where "cs = pre @ t" "m t = Some g" by auto
    then have "c # cs = (c # pre) @ t \<and> m t = Some g" by simp
    then show ?thesis by blast
  next
    case (Some g')
    with Cons.prems have "c # cs = [] @ (c # cs) \<and> m (c # cs) = Some g" by simp
    then show ?thesis by blast
  qed
qed

text \<open>
  C10. On every reference \<^verbatim>\<open>GM/\<close>, two capitals, \<^verbatim>\<open>-\<close> (and anything after), the
  pattern of \<^verbatim>\<open>Original Region\<close> and \<^verbatim>\<open>extract_sota_region\<close> both return the two
  capitals; \<^verbatim>\<open>extract_sota_region\<close> returns the empty string on every string in which
  its pattern does not occur, and two capitals of an occurrence otherwise.
\<close>

theorem extractors_agree:
  "(is_upper a \<and> is_upper b \<longrightarrow>
      str_extract_gm (Some (''GM/'' @ [a, b] @ ''-'' @ rest)) = Some [a, b] \<and>
      extract_sota_region (''GM/'' @ [a, b] @ ''-'' @ rest) = [a, b]) \<and>
   (\<not> slash_pattern_occurs s \<longrightarrow> extract_sota_region s = [])"
proof (intro conjI impI)
  assume ab: "is_upper a \<and> is_upper b"
  then have "match_gm_region (''GM/'' @ [a, b] @ ''-'' @ rest) = Some [a, b]"
    using match_gm_region_two by blast
  then show "str_extract_gm (Some (''GM/'' @ [a, b] @ ''-'' @ rest)) = Some [a, b]"
    by (simp add: str_extract_gm_def)
  have "match_slash_region (''/'' @ [a, b] @ ''-'' @ rest) = Some [a, b]"
    using ab by (simp add: match_slash_region_def)
  then show "extract_sota_region (''GM/'' @ [a, b] @ ''-'' @ rest) = [a, b]"
    by (simp add: extract_sota_region_def match_slash_region_def)
next
  assume no: "\<not> slash_pattern_occurs s"
  show "extract_sota_region s = []"
  proof (cases "re_search match_slash_region s")
    case None
    then show ?thesis by (simp add: extract_sota_region_def)
  next
    case (Some g)
    then obtain pre t where "s = pre @ t" "match_slash_region t = Some g"
      using re_search_Some by blast
    then have "slash_pattern_occurs s"
      using match_slash_region_Some [of t g] by (auto simp: slash_pattern_occurs_def)
    with no show ?thesis by simp
  qed
qed

theorem extractors_agree_witness:
  "is_upper CHR ''S'' \<and> str_extract_gm (Some ''GM/SS-001'') = Some ''SS'' \<and>
   extract_sota_region ''GM/SS-001'' = ''SS'' \<and>
   \<not> slash_pattern_occurs ''GM'' \<and> extract_sota_region ''GM'' = []"
proof -
  have up: "is_upper CHR ''S''" by (simp add: is_upper_def less_eq_char_def)
  have no: "\<not> slash_pattern_occurs ''GM''"
    by (auto simp: slash_pattern_occurs_def append_eq_Cons_conv Cons_eq_append_conv)
  from extractors_agree [of "CHR ''S''" "CHR ''S''" "''001''" "''GM''"] up no
  show ?thesis by simp
qed

section \<open>Properties of the sidebar\<close>

lemma set_dropna: "set (dropna xs) = {x. Some x \<in> set xs}"
  by (induction xs rule: dropna.induct) auto

lemma count_list_dropna: "count_list (dropna xs) v = count_list xs (Some v)"
  by (induction xs rule: dropna.induct) auto

lemma set_unique_acc: "set (unique_acc seen xs) = set xs - set seen"
  by (induction seen xs rule: unique_acc.induct) auto

lemma distinct_unique_acc: "distinct (unique_acc seen xs)"
  by (induction seen xs rule: unique_acc.induct) (auto simp: set_unique_acc)

lemma set_unique: "set (unique xs) = set xs"
  by (simp add: unique_def set_unique_acc)

lemma distinct_unique: "distinct (unique xs)"
  by (simp add: unique_def distinct_unique_acc)

lemma fold_max_Max: "fold max xs (a::nat) = Max (insert a (set xs))"
proof (induction xs arbitrary: a)
  case Nil
  then show ?case by simp
next
  case (Cons x xs)
  have "Max (insert (max x a) (set xs)) = Max (insert a (insert x (set xs)))"
  proof (cases "set xs = {}")
    case True
    then show ?thesis by (simp add: max.commute)
  next
    case False
    then show ?thesis by (simp add: max.commute max.left_commute max.assoc)
  qed
  with Cons show ?case by simp
qed

lemma mode_set: "set (mode xs) = {v. most_frequent xs v}"
proof -
  define vs where "vs = dropna xs"
  define top where "top = fold max (map (count_list vs) (unique vs)) 0"
  have top: "top = Max (insert 0 (count_list vs ` set vs))"
    by (simp add: top_def fold_max_Max set_unique)
  have fin: "finite (insert 0 (count_list vs ` set vs))" by simp
  have le: "count_list vs w \<le> top" for w
  proof (cases "w \<in> set vs")
    case True
    then show ?thesis unfolding top using fin by (intro Max_ge) auto
  next
    case False
    then show ?thesis by (simp add: count_list_0_iff)
  qed
  have "v \<in> set (mode xs) \<longleftrightarrow> most_frequent xs v" for v
  proof
    assume "v \<in> set (mode xs)"
    then have v: "v \<in> set vs" "count_list vs v = top"
      by (auto simp: mode_def Let_def vs_def top_def set_unique)
    with le show "most_frequent xs v"
      by (auto simp: most_frequent_def vs_def set_dropna count_list_dropna)
  next
    assume mf: "most_frequent xs v"
    then have v: "v \<in> set vs" and ge: "\<And>w. count_list vs w \<le> count_list vs v"
      by (auto simp: most_frequent_def vs_def set_dropna count_list_dropna)
    have "top \<in> insert 0 (count_list vs ` set vs)"
      unfolding top using fin by (intro Max_in) auto
    then have "top \<le> count_list vs v" using ge by auto
    with le [of v] have "count_list vs v = top" by simp
    with v show "v \<in> set (mode xs)"
      by (auto simp: mode_def Let_def vs_def top_def set_unique)
  qed
  then show ?thesis by auto
qed

lemma sorted_mode: "sorted (mode xs)"
  by (simp add: mode_def Let_def)

lemma hd_mode_least:
  assumes "mode xs \<noteq> []"
  shows "most_frequent xs (hd (mode xs)) \<and> (\<forall>w. most_frequent xs w \<longrightarrow> hd (mode xs) \<le> w)"
proof -
  obtain m ms where ms: "mode xs = m # ms" using assms by (cases "mode xs") auto
  have "sorted (m # ms)" using sorted_mode [of xs] ms by simp
  then have "\<forall>w \<in> set (m # ms). m \<le> w" by auto
  moreover have "set (m # ms) = {v. most_frequent xs v}" using mode_set [of xs] ms by simp
  ultimately show ?thesis using ms by auto
qed

lemma list_index_mem:
  "x \<in> set xs \<Longrightarrow> \<exists>i. list_index xs x = Inr i \<and> i < length xs \<and> xs ! i = x"
  by (induction xs) auto

lemma default_value_mem: "default_value df a \<in> set sota_regions"
  by (simp add: default_value_def Let_def sota_regions_def)

lemma sidebar_step_ok:
  "\<exists>c. sidebar_step df session a = Inr c \<and> key c = a \<and> options c = sota_regions \<and>
       selected c \<in> set sota_regions \<and> index c < length sota_regions \<and>
       sota_regions ! index c = default_value df a \<and>
       selected c = (case session a of
                       Some j \<Rightarrow> if j < length sota_regions then sota_regions ! j
                                 else default_value df a
                     | None \<Rightarrow> default_value df a)"
proof -
  obtain i where i: "list_index sota_regions (default_value df a) = Inr i"
    "i < length sota_regions" "sota_regions ! i = default_value df a"
    using list_index_mem [OF default_value_mem] by blast
  then show ?thesis
    using default_value_mem [of df a]
    by (auto simp: sidebar_step_def Let_def selectbox_def split: option.splits)
qed

lemma sidebar_loop_char:
  "\<exists>cs. sidebar_loop df session as (ctrls, m) =
          Inr (ctrls @ cs,
               \<lambda>x. if x \<in> set as
                    then (case sidebar_step df session x of
                            Inr c \<Rightarrow> Some (selected c) | Inl e \<Rightarrow> None)
                    else m x) \<and>
        map Inr cs = map (sidebar_step df session) as"
proof (induction as arbitrary: ctrls m)
  case Nil
  then show ?case by simp
next
  case (Cons a as)
  obtain c where c: "sidebar_step df session a = Inr c"
    using sidebar_step_ok by blast
  from Cons [of "ctrls @ [c]" "m(a \<mapsto> selected c)"] obtain cs where
    cs: "sidebar_loop df session as (ctrls @ [c], m(a \<mapsto> selected c)) =
          Inr ((ctrls @ [c]) @ cs,
               \<lambda>x. if x \<in> set as
                    then (case sidebar_step df session x of
                            Inr c \<Rightarrow> Some (selected c) | Inl e \<Rightarrow> None)
                    else (m(a \<mapsto> selected c)) x)"
      "map Inr cs = map (sidebar_step df session) as"
    by blast
  have "(\<lambda>x. if x \<in> set as
                    then (case sidebar_step df session x of
                            Inr c \<Rightarrow> Some (selected c) | Inl e \<Rightarrow> None)
                    else (m(a \<mapsto> selected c)) x) =
        (\<lambda>x. if x \<in> set (a # as)
                    then (case sidebar_step df session x of
                            Inr c \<Rightarrow> Some (selected c) | Inl e \<Rightarrow> None)
                    else m x)"
    using c by (auto simp: fun_eq_iff)
  with c cs show ?case
    by (intro exI [of _ "c # cs"]) simp
qed


text \<open>
  C8. For every Area the default region is one of the six regions, so
  \<^verbatim>\<open>sota_regions.index(default_value)\<close> returns a position and never raises. When the
  rows of that Area have a most frequent \<^verbatim>\<open>New gm region\<close> (the least one, where several
  tie) the default is that value if it is one of the six and \<^verbatim>\<open>SS\<close> if not; with no
  value at all it is \<^verbatim>\<open>SS\<close>.
\<close>

theorem default_value_in_sota_regions:
  "(\<exists>i. list_index sota_regions (default_value df a) = Inr i \<and> i < length sota_regions \<and>
        sota_regions ! i = default_value df a) \<and>
   (most_frequent (map new_gm_region (filter (\<lambda>r. area r = Some a) df)) v \<and>
    (\<forall>w. most_frequent (map new_gm_region (filter (\<lambda>r. area r = Some a) df)) w \<longrightarrow> v \<le> w)
      \<longrightarrow> default_value df a = (if v \<in> set sota_regions then v else ''SS'')) \<and>
   ((\<forall>w. \<not> most_frequent (map new_gm_region (filter (\<lambda>r. area r = Some a) df)) w)
      \<longrightarrow> default_value df a = ''SS'')"
proof (intro conjI impI)
  show "\<exists>i. list_index sota_regions (default_value df a) = Inr i \<and> i < length sota_regions \<and>
        sota_regions ! i = default_value df a"
    using list_index_mem [OF default_value_mem] .
next
  let ?col = "map new_gm_region (filter (\<lambda>r. area r = Some a) df)"
  assume v: "most_frequent ?col v \<and> (\<forall>w. most_frequent ?col w \<longrightarrow> v \<le> w)"
  then have "v \<in> set (mode ?col)" using mode_set [of ?col] by simp
  then have ne: "mode ?col \<noteq> []" by auto
  from hd_mode_least [OF ne] v have "hd (mode ?col) = v"
    by (intro order_antisym) auto
  with ne show "default_value df a = (if v \<in> set sota_regions then v else ''SS'')"
    by (simp add: default_value_def Let_def)
next
  let ?col = "map new_gm_region (filter (\<lambda>r. area r = Some a) df)"
  assume "\<forall>w. \<not> most_frequent ?col w"
  then have "set (mode ?col) = {}" using mode_set [of ?col] by simp
  then show "default_value df a = ''SS''"
    by (simp add: default_value_def Let_def)
qed

theorem default_value_in_sota_regions_witness:
  "most_frequent [Some ''ES''] ''ES'' \<and> default_value ex_df ''17B'' = ''ES'' \<and>
   list_index sota_regions (default_value ex_df ''17B'') = Inr 1"
proof -
  have col: "map new_gm_region (filter (\<lambda>r. area r = Some ''17B'') ex_df) = [Some ''ES'']"
    by (simp add: ex_df_def)
  have mf: "most_frequent [Some ''ES''] ''ES''"
    by (simp add: most_frequent_def)
  have least: "\<forall>w. most_frequent [Some ''ES''] w \<longrightarrow> ''ES'' \<le> w"
    by (simp add: most_frequent_def)
  have mem: "''ES'' \<in> set sota_regions" by (simp add: sota_regions_def)
  from default_value_in_sota_regions [of ex_df "''17B''" "''ES''"] mf least mem
  have d: "default_value ex_df ''17B'' = ''ES''" unfolding col by simp
  have "list_index sota_regions ''ES'' = Inr 1" by (simp add: sota_regions_def)
  with mf d show ?thesis by simp
qed




lemma set_area_list: "set (area_list df) = {a. Some a \<in> area ` set df}"
  by (simp add: area_list_def set_unique set_dropna)

lemma map_Inr_key:
  "map Inr cs = map (sidebar_step df session) as \<Longrightarrow> map key cs = as"
proof (induction cs arbitrary: as)
  case Nil
  then show ?case by simp
next
  case (Cons c cs)
  then obtain a as' where as: "as = a # as'" by (cases as) auto
  with Cons.prems have c: "sidebar_step df session a = Inr c" and
    rest: "map Inr cs = map (sidebar_step df session) as'" by auto
  from c sidebar_step_ok [of df session a] have "key c = a" by auto
  with Cons.IH [OF rest] as show ?case by simp
qed

lemma map_Inr_step:
  "map Inr cs = map (sidebar_step df session) as \<Longrightarrow> c \<in> set cs \<Longrightarrow>
   sidebar_step df session (key c) = Inr c"
proof (induction cs arbitrary: as)
  case Nil
  then show ?case by simp
next
  case (Cons c' cs)
  then obtain a as' where as: "as = a # as'" by (cases as) auto
  with Cons.prems have c': "sidebar_step df session a = Inr c'" and
    rest: "map Inr cs = map (sidebar_step df session) as'" by auto
  from c' sidebar_step_ok [of df session a] have "key c' = a" by auto
  with Cons.IH [OF rest] Cons.prems(2) c' show ?case by auto
qed

lemma sidebar_char:
  "\<exists>ctrls. sidebar df session =
            Inr (ctrls,
                 \<lambda>x. if x \<in> set (area_list df)
                      then (case sidebar_step df session x of
                              Inr c \<Rightarrow> Some (selected c) | Inl e \<Rightarrow> None)
                      else None) \<and>
          map key ctrls = area_list df \<and>
          (\<forall>c \<in> set ctrls. sidebar_step df session (key c) = Inr c)"
proof -
  from sidebar_loop_char [of df session "area_list df" "[]" Map.empty]
  obtain cs where cs: "sidebar df session =
            Inr (cs,
                 \<lambda>x. if x \<in> set (area_list df)
                      then (case sidebar_step df session x of
                              Inr c \<Rightarrow> Some (selected c) | Inl e \<Rightarrow> None)
                      else None)"
     "map Inr cs = map (sidebar_step df session) (area_list df)"
    by (auto simp: sidebar_def)
  with map_Inr_key [OF cs(2)] map_Inr_step [OF cs(2)] show ?thesis by blast
qed




lemma length_update_new_gm_region:
  "length (update_new_gm_region df m) = length df"
  by (simp add: update_new_gm_region_def series_map_def)

lemma nth_update_new_gm_region:
  "i < length df \<Longrightarrow>
   update_new_gm_region df m ! i =
     (df ! i)\<lparr>new_gm_region := (case area (df ! i) of None \<Rightarrow> None | Some a \<Rightarrow> m a)\<rparr>"
  by (simp add: update_new_gm_region_def series_map_def)

lemma apply_extract_sota_region_ok:
  "list_all (\<lambda>x. x \<noteq> None) cells \<Longrightarrow> \<exists>rs. apply_extract_sota_region cells = Inr rs"
  by (induction cells rule: apply_extract_sota_region.induct) auto

text \<open>
  C4. The frame handed to \<^verbatim>\<open>to_csv\<close> is the loaded frame after line 125: it exists
  whenever no \<^verbatim>\<open>SOTA Ref\<close> is missing, has the rows of the loaded frame, differs from
  them in \<^verbatim>\<open>New gm region\<close> only, and in every row whose Area is the key of a sidebar
  widget (every row with an Area has one) \<^verbatim>\<open>New gm region\<close> is the value selected in
  that widget.
\<close>

theorem download_has_selected_regions:
  "(list_all (\<lambda>r. sota_ref r \<noteq> None) df \<longrightarrow> (\<exists>out. download_frame df session = Inr out)) \<and>
   (download_frame df session = Inr out \<longrightarrow>
      (\<exists>ctrls area_to_region.
         sidebar df session = Inr (ctrls, area_to_region) \<and>
         length out = length df \<and>
         (\<forall>i < length df. \<forall>c \<in> set ctrls.
            area (df ! i) = Some (key c) \<longrightarrow> new_gm_region (out ! i) = Some (selected c)) \<and>
         (\<forall>i < length df. \<forall>a. area (df ! i) = Some a \<longrightarrow> (\<exists>c \<in> set ctrls. key c = a)) \<and>
         (\<forall>i < length df. out ! i = (df ! i)\<lparr>new_gm_region := new_gm_region (out ! i)\<rparr>)))"
proof (intro conjI impI)
  assume "list_all (\<lambda>r. sota_ref r \<noteq> None) df"
  then have "list_all (\<lambda>x. x \<noteq> None) (map sota_ref df)"
    by (simp add: list_all_iff)
  then obtain rs where rs: "apply_extract_sota_region (map sota_ref df) = Inr rs"
    using apply_extract_sota_region_ok by blast
  obtain ctrls where "sidebar df session =
            Inr (ctrls,
                 \<lambda>x. if x \<in> set (area_list df)
                      then (case sidebar_step df session x of
                              Inr c \<Rightarrow> Some (selected c) | Inl e \<Rightarrow> None)
                      else None)"
    using sidebar_char by blast
  with rs show "\<exists>out. download_frame df session = Inr out"
    by (simp add: download_frame_def)
next
  assume dl: "download_frame df session = Inr out"
  let ?m = "\<lambda>x. if x \<in> set (area_list df)
                      then (case sidebar_step df session x of
                              Inr c \<Rightarrow> Some (selected c) | Inl e \<Rightarrow> None)
                      else None"
  obtain ctrls where s: "sidebar df session = Inr (ctrls, ?m)"
    and keys: "map key ctrls = area_list df"
    and step: "\<forall>c \<in> set ctrls. sidebar_step df session (key c) = Inr c"
    using sidebar_char by blast
  from dl s have out: "out = update_new_gm_region df ?m"
    by (auto simp: download_frame_def split: sum.splits)
  have len: "length out = length df"
    by (simp add: out length_update_new_gm_region)
  have sel: "\<forall>i < length df. \<forall>c \<in> set ctrls.
            area (df ! i) = Some (key c) \<longrightarrow> new_gm_region (out ! i) = Some (selected c)"
  proof (intro allI impI ballI)
    fix i c assume i: "i < length df" and c: "c \<in> set ctrls"
      and a: "area (df ! i) = Some (key c)"
    from c have "key c \<in> set (map key ctrls)" by simp
    then have "key c \<in> set (area_list df)" by (simp only: keys)
    moreover from c step have "sidebar_step df session (key c) = Inr c" by blast
    ultimately show "new_gm_region (out ! i) = Some (selected c)"
      using i a by (simp add: out nth_update_new_gm_region)
  qed
  have cov: "\<forall>i < length df. \<forall>a. area (df ! i) = Some a \<longrightarrow> (\<exists>c \<in> set ctrls. key c = a)"
  proof (intro allI impI)
    fix i a assume i: "i < length df" and a: "area (df ! i) = Some a"
    then have "df ! i \<in> set df" by simp
    with a have "Some a \<in> area ` set df" by force
    then have "a \<in> set (map key ctrls)" by (simp add: keys set_area_list)
    then show "\<exists>c \<in> set ctrls. key c = a" by auto
  qed
  have frame: "\<forall>i < length df. out ! i = (df ! i)\<lparr>new_gm_region := new_gm_region (out ! i)\<rparr>"
    by (simp add: out nth_update_new_gm_region)
  from s len sel cov frame
  show "\<exists>ctrls area_to_region.
         sidebar df session = Inr (ctrls, area_to_region) \<and>
         length out = length df \<and>
         (\<forall>i < length df. \<forall>c \<in> set ctrls.
            area (df ! i) = Some (key c) \<longrightarrow> new_gm_region (out ! i) = Some (selected c)) \<and>
         (\<forall>i < length df. \<forall>a. area (df ! i) = Some a \<longrightarrow> (\<exists>c \<in> set ctrls. key c = a)) \<and>
         (\<forall>i < length df. out ! i = (df ! i)\<lparr>new_gm_region := new_gm_region (out ! i)\<rparr>)"
    by blast
qed

theorem download_has_selected_regions_witness:
  "list_all (\<lambda>r. sota_ref r \<noteq> None) ex_df \<and>
   (\<exists>out (c::control). download_frame ex_df ex_session = Inr out \<and> length out = 3 \<and>
      key c = ''17B'' \<and> new_gm_region (out ! 0) = Some (selected c))"
proof -
  have refs: "list_all (\<lambda>r. sota_ref r \<noteq> None) ex_df"
    by (simp add: ex_df_def)
  have len: "length ex_df = 3" by (simp add: ex_df_def)
  have a0: "area (ex_df ! 0) = Some ''17B''" by (simp add: ex_df_def)
  have "list_all (\<lambda>r. sota_ref r \<noteq> None) ex_df \<longrightarrow>
          (\<exists>out. download_frame ex_df ex_session = Inr out)"
    using download_has_selected_regions [of ex_df ex_session] by (rule conjunct1)
  from this refs have "\<exists>out. download_frame ex_df ex_session = Inr out" by (rule mp)
  then obtain out where dl: "download_frame ex_df ex_session = Inr out" by (rule exE)
  have "download_frame ex_df ex_session = Inr out \<longrightarrow>
      (\<exists>ctrls area_to_region.
         sidebar ex_df ex_session = Inr (ctrls, area_to_region) \<and>
         length out = length ex_df \<and>
         (\<forall>i < length ex_df. \<forall>c \<in> set ctrls.
            area (ex_df ! i) = Some (key c) \<longrightarrow> new_gm_region (out ! i) = Some (selected c)) \<and>
         (\<forall>i < length ex_df. \<forall>a. area (ex_df ! i) = Some a \<longrightarrow> (\<exists>c \<in> set ctrls. key c = a)) \<and>
         (\<forall>i < length ex_df. out ! i = (ex_df ! i)\<lparr>new_gm_region := new_gm_region (out ! i)\<rparr>))"
    using download_has_selected_regions [of ex_df ex_session out] by (rule conjunct2)
  from this dl have "\<exists>ctrls area_to_region.
         sidebar ex_df ex_session = Inr (ctrls, area_to_region) \<and>
         length out = length ex_df \<and>
         (\<forall>i < length ex_df. \<forall>c \<in> set ctrls.
            area (ex_df ! i) = Some (key c) \<longrightarrow> new_gm_region (out ! i) = Some (selected c)) \<and>
         (\<forall>i < length ex_df. \<forall>a. area (ex_df ! i) = Some a \<longrightarrow> (\<exists>c \<in> set ctrls. key c = a)) \<and>
         (\<forall>i < length ex_df. out ! i = (ex_df ! i)\<lparr>new_gm_region := new_gm_region (out ! i)\<rparr>)"
    by (rule mp)
  then show ?thesis
  proof (elim exE conjE)
  fix ctrls :: "control list"
  assume l: "length out = length ex_df" and
    sel: "\<forall>i < length ex_df. \<forall>c \<in> set ctrls.
            area (ex_df ! i) = Some (key c) \<longrightarrow> new_gm_region (out ! i) = Some (selected c)" and
    cov: "\<forall>i < length ex_df. \<forall>a. area (ex_df ! i) = Some a \<longrightarrow> (\<exists>c \<in> set ctrls. key c = a)"
  have pos: "0 < length ex_df" by (simp add: len)
  from cov have "0 < length ex_df \<longrightarrow>
      (\<forall>a. area (ex_df ! 0) = Some a \<longrightarrow> (\<exists>c \<in> set ctrls. key c = a))" by (rule spec)
  from this pos have "\<forall>a. area (ex_df ! 0) = Some a \<longrightarrow> (\<exists>c \<in> set ctrls. key c = a)"
    by (rule mp)
  then have "area (ex_df ! 0) = Some ''17B'' \<longrightarrow> (\<exists>c \<in> set ctrls. key c = ''17B'')"
    by (rule spec)
  from this a0 have "\<exists>c \<in> set ctrls. key c = ''17B''" by (rule mp)
  then obtain c where c: "c \<in> set ctrls" "key c = ''17B''" by (rule bexE)
  from sel have "0 < length ex_df \<longrightarrow> (\<forall>c \<in> set ctrls.
            area (ex_df ! 0) = Some (key c) \<longrightarrow> new_gm_region (out ! 0) = Some (selected c))"
    by (rule spec)
  from this pos have "\<forall>c \<in> set ctrls.
            area (ex_df ! 0) = Some (key c) \<longrightarrow> new_gm_region (out ! 0) = Some (selected c)"
    by (rule mp)
  from this c(1) have
    "area (ex_df ! 0) = Some (key c) \<longrightarrow> new_gm_region (out ! 0) = Some (selected c)"
    by (rule bspec)
  moreover have "area (ex_df ! 0) = Some (key c)" by (simp only: a0 c(2))
  ultimately have n: "new_gm_region (out ! 0) = Some (selected c)" by (rule mp)
  have l3: "length out = 3" by (simp only: l len)
  have X: "download_frame ex_df ex_session = Inr out \<and> length out = 3 \<and>
      key c = ''17B'' \<and> new_gm_region (out ! 0) = Some (selected c)"
    by (intro conjI dl l3 c(2) n)
  have "\<exists>out (c::control). download_frame ex_df ex_session = Inr out \<and> length out = 3 \<and>
      key c = ''17B'' \<and> new_gm_region (out ! 0) = Some (selected c)"
    apply (rule exI [where x = out])
    apply (rule exI [where x = c])
    apply (rule X)
    done
  with refs show ?thesis by (rule conjI)
  qed
qed

section \<open>Properties of the comparison table\<close>

lemma distinct_keys_sort_key:
  "distinct (map fst (sort_key f xs)) = distinct (map fst xs)"
  by (simp add: distinct_map)

lemma map_of_sort_key:
  assumes "distinct (map fst xs)"
  shows "map_of (sort_key f xs) = map_of xs"
proof -
  have "distinct (map fst (sort_key f xs))" using assms by (simp add: distinct_keys_sort_key)
  moreover have "set (sort_key f xs) = set xs" by simp
  ultimately show ?thesis using assms by (simp add: map_of_inject_set)
qed

lemma keys_value_counts: "set (map fst (value_counts xs)) = set (dropna xs)"
  by (simp add: value_counts_def Let_def set_unique image_image)

lemma map_of_value_counts:
  "map_of (value_counts xs) k =
     (if Some k \<in> set xs then Some (count_list xs (Some k)) else None)"
proof -
  let ?ps = "map (\<lambda>v. (v, count_list (dropna xs) v)) (unique (dropna xs))"
  have fst: "map fst ?ps = unique (dropna xs)" by (simp add: comp_def)
  have "distinct (map fst ?ps)" by (simp only: fst distinct_unique)
  then have "map_of (value_counts xs) = map_of ?ps"
    by (simp add: value_counts_def Let_def map_of_sort_key)
  also have "\<dots> = (Some \<circ> count_list (dropna xs)) |` set (unique (dropna xs))"
    by (rule map_of_map_restrict)
  finally show ?thesis
    by (simp add: restrict_map_def set_unique set_dropna count_list_dropna)
qed

lemma keys_comparison_df:
  "map fst (comparison_df orig new) =
     unique (map fst (value_counts orig) @ map fst (value_counts new))"
  by (simp add: comparison_df_def concat_axis1_def Let_def comp_def)

lemma set_keys_comparison_df:
  "set (map fst (comparison_df orig new)) = set (dropna orig) \<union> set (dropna new)"
  unfolding keys_comparison_df set_unique set_append keys_value_counts ..

lemma distinct_comparison_df: "distinct (map fst (comparison_df orig new))"
  by (simp only: keys_comparison_df distinct_unique)

lemma comparison_df_rows:
  "comparison_df orig new =
     map (\<lambda>k. (k, int (count_list orig (Some k)), int (count_list new (Some k))))
       (unique (map fst (value_counts orig) @ map fst (value_counts new)))"
proof -
  have f: "fillna0_int (map_of (value_counts xs) k) = int (count_list xs (Some k))" for xs k
    by (simp add: map_of_value_counts fillna0_int_def count_list_0_iff)
  show ?thesis
    by (simp add: comparison_df_def concat_axis1_def Let_def f)
qed

lemma map_of_comparison_df:
  "map_of (comparison_df orig new) r =
     (if Some r \<in> set orig \<or> Some r \<in> set new
      then Some (int (count_list orig (Some r)), int (count_list new (Some r)))
      else None)"
proof -
  let ?ks = "unique (map fst (value_counts orig) @ map fst (value_counts new))"
  have ks: "set ?ks = set (dropna orig) \<union> set (dropna new)"
    unfolding set_unique set_append keys_value_counts ..
  have "map_of (comparison_df orig new) =
        (Some \<circ> (\<lambda>k. (int (count_list orig (Some k)), int (count_list new (Some k))))) |` set ?ks"
    unfolding comparison_df_rows by (rule map_of_map_restrict)
  then show ?thesis
    by (simp add: restrict_map_def ks set_dropna)
qed

text \<open>
  C5. The comparison table has one row per region that occurs in \<^verbatim>\<open>Original Region\<close>
  or in \<^verbatim>\<open>Assigned Region\<close>; in the row of region \<open>r\<close> the entry \<^verbatim>\<open>Original\<close> is the
  number of rows whose Original Region is \<open>r\<close> and the entry \<^verbatim>\<open>New\<close> the number of rows
  whose Assigned Region is \<open>r\<close>; a region that occurs in one column only has the
  integer 0 in the other.
\<close>

theorem comparison_df_counts:
  "distinct (map fst (comparison_df orig new)) \<and>
   set (map fst (comparison_df orig new)) = {r. Some r \<in> set orig \<or> Some r \<in> set new} \<and>
   (Some r \<in> set orig \<or> Some r \<in> set new \<longrightarrow>
      map_of (comparison_df orig new) r =
        Some (int (count_list orig (Some r)), int (count_list new (Some r)))) \<and>
   (Some r \<in> set orig \<and> Some r \<notin> set new \<longrightarrow>
      map_of (comparison_df orig new) r = Some (int (count_list orig (Some r)), 0)) \<and>
   (Some r \<notin> set orig \<and> Some r \<in> set new \<longrightarrow>
      map_of (comparison_df orig new) r = Some (0, int (count_list new (Some r))))"
proof -
  have s: "set (map fst (comparison_df orig new)) = {r. Some r \<in> set orig \<or> Some r \<in> set new}"
    unfolding set_keys_comparison_df set_dropna by blast
  show ?thesis
    using distinct_comparison_df [of orig new] s
    by (simp add: map_of_comparison_df)
qed


theorem comparison_df_counts_witness:
  "Some ''WS'' \<in> set ex_original \<and> Some ''WS'' \<notin> set ex_assigned \<and>
   map_of (comparison_df ex_original ex_assigned) ''WS'' = Some (2, 0)"
proof -
  have a: "Some ''WS'' \<in> set ex_original" by (simp add: ex_original_def)
  have b: "Some ''WS'' \<notin> set ex_assigned" by (simp add: ex_assigned_def)
  have c: "count_list ex_original (Some ''WS'') = 2" by (simp add: ex_original_def)
  have "Some ''WS'' \<in> set ex_original \<and> Some ''WS'' \<notin> set ex_assigned \<longrightarrow>
      map_of (comparison_df ex_original ex_assigned) ''WS'' =
        Some (int (count_list ex_original (Some ''WS'')), 0)"
    using comparison_df_counts [of ex_original ex_assigned "''WS''"] by (elim conjE)
  with a b have "map_of (comparison_df ex_original ex_assigned) ''WS'' =
        Some (int (count_list ex_original (Some ''WS'')), 0)" by (simp only: simp_thms)
  then have "map_of (comparison_df ex_original ex_assigned) ''WS'' = Some (2, 0)"
    by (simp only: c) simp
  with a b show ?thesis by (intro conjI)
qed

lemma sum_list_int: "(\<Sum>k\<leftarrow>ks. int (f k)) = int (\<Sum>k\<leftarrow>ks. f k)"
  by (induction ks) auto

lemma sum_counts:
  assumes "distinct ks" "set (dropna xs) \<subseteq> set ks"
  shows "(\<Sum>k\<leftarrow>ks. count_list xs (Some k)) = length (dropna xs)"
proof -
  have "(\<Sum>k\<leftarrow>ks. count_list xs (Some k)) = (\<Sum>k\<leftarrow>ks. count_list (dropna xs) k)"
    by (simp add: count_list_dropna)
  also have "\<dots> = sum (count_list (dropna xs)) (set ks)"
    using assms(1) by (simp add: sum_list_distinct_conv_sum_set)
  also have "\<dots> = length (dropna xs)"
    using assms(2) by (intro sum_count_set) auto
  finally show ?thesis .
qed

lemma length_dropna_all: "None \<notin> set xs \<Longrightarrow> length (dropna xs) = length xs"
  by (induction xs rule: dropna.induct) auto

lemma column_sums:
  assumes "None \<notin> set orig" "None \<notin> set new"
  shows "(\<Sum>(k, x, y)\<leftarrow>comparison_df orig new. x) = int (length orig) \<and>
         (\<Sum>(k, x, y)\<leftarrow>comparison_df orig new. y) = int (length new)"
proof -
  let ?ks = "unique (map fst (value_counts orig) @ map fst (value_counts new))"
  have d: "distinct ?ks" by (rule distinct_unique)
  have ks: "set ?ks = set (dropna orig) \<union> set (dropna new)"
    unfolding set_unique set_append keys_value_counts ..
  have "(\<Sum>(k, x, y)\<leftarrow>comparison_df orig new. x) = (\<Sum>k\<leftarrow>?ks. int (count_list orig (Some k)))"
    unfolding comparison_df_rows by (simp add: comp_def)
  also have "\<dots> = int (length (dropna orig))"
    using sum_counts [OF d, of orig] ks by (simp add: sum_list_int)
  finally have x: "(\<Sum>(k, x, y)\<leftarrow>comparison_df orig new. x) = int (length orig)"
    using assms(1) by (simp add: length_dropna_all)
  have "(\<Sum>(k, x, y)\<leftarrow>comparison_df orig new. y) = (\<Sum>k\<leftarrow>?ks. int (count_list new (Some k)))"
    unfolding comparison_df_rows by (simp add: comp_def)
  also have "\<dots> = int (length (dropna new))"
    using sum_counts [OF d, of new] ks by (simp add: sum_list_int)
  finally have y: "(\<Sum>(k, x, y)\<leftarrow>comparison_df orig new. y) = int (length new)"
    using assms(2) by (simp add: length_dropna_all)
  from x y show ?thesis ..
qed

text \<open>
  C6. When every row has an Original Region and an Area that is a key of
  \<^verbatim>\<open>area_to_region\<close>, the column \<^verbatim>\<open>New\<close> and the column \<^verbatim>\<open>Original\<close> of the comparison
  table both sum to the number of rows.
\<close>

theorem reassignment_conserves_total:
  assumes "\<forall>r \<in> set df. str_extract_gm (sota_ref r) \<noteq> None"
    and "\<forall>r \<in> set df. \<exists>a. area r = Some a \<and> a \<in> dom area_to_region"
  shows "(\<Sum>(k, x, y)\<leftarrow>comparison_df (original_region df) (assigned_region df area_to_region). x)
           = int (length df) \<and>
         (\<Sum>(k, x, y)\<leftarrow>comparison_df (original_region df) (assigned_region df area_to_region). y)
           = int (length df)"
proof -
  have o: "None \<notin> set (original_region df)"
    using assms(1) by (auto simp: original_region_def)
  have n: "None \<notin> set (assigned_region df area_to_region)"
  proof
    assume "None \<in> set (assigned_region df area_to_region)"
    then obtain r where r: "r \<in> set df"
      "(case area r of None \<Rightarrow> None | Some a \<Rightarrow> area_to_region a) = None"
      by (auto simp: assigned_region_def series_map_def)
    with assms(2) obtain a where "area r = Some a" "a \<in> dom area_to_region" by blast
    with r(2) show False by auto
  qed
  have "length (original_region df) = length df"
    "length (assigned_region df area_to_region) = length df"
    by (simp_all add: original_region_def assigned_region_def series_map_def)
  with column_sums [OF o n] show ?thesis by simp
qed

theorem reassignment_conserves_total_witness:
  "(\<Sum>(k, x, y)\<leftarrow>comparison_df (original_region ex_df2) (assigned_region ex_df2 ex_area_to_region). x) = 2 \<and>
   (\<Sum>(k, x, y)\<leftarrow>comparison_df (original_region ex_df2) (assigned_region ex_df2 ex_area_to_region). y) = 2"
proof -
  have df: "ex_df2 = [\<lparr>sota_ref = Some ''GM/SS-001'', area = Some ''17B'', area_name = Some ''Skye'',
              new_gm_region = Some ''ES'', points = Some 4\<rparr>,
            \<lparr>sota_ref = Some ''GM/WS-010'', area = Some ''01A'', area_name = None,
              new_gm_region = None, points = Some 2\<rparr>]"
    by (simp add: ex_df2_def ex_df_def)
  have e1: "str_extract_gm (Some ''GM/SS-001'') = Some ''SS''" by code_simp
  have e2: "str_extract_gm (Some ''GM/WS-010'') = Some ''WS''" by code_simp
  have h1: "\<forall>r \<in> set ex_df2. str_extract_gm (sota_ref r) \<noteq> None"
    by (simp add: df e1 e2)
  have h2: "\<forall>r \<in> set ex_df2. \<exists>a. area r = Some a \<and> a \<in> dom ex_area_to_region"
    by (simp add: df ex_area_to_region_def)
  have l: "length ex_df2 = 2" by (simp add: df)
  from reassignment_conserves_total [OF h1 h2] show ?thesis
    by (simp only: l) simp
qed

section \<open>Properties of the join\<close>




























section \<open>Properties of the rounding\<close>

lemma fold_max_insert: "fold max xs (a::'a::linorder) = Max (insert a (set xs))"
proof (induction xs arbitrary: a)
  case Nil
  then show ?case by simp
next
  case (Cons x xs)
  have "Max (insert (max x a) (set xs)) = Max (insert a (insert x (set xs)))"
  proof (cases "set xs = {}")
    case True
    then show ?thesis by (simp add: max.commute)
  next
    case False
    then show ?thesis by (simp add: max.commute max.left_commute max.assoc)
  qed
  with Cons show ?case by simp
qed

lemma binary64_exponent_Max:
  "binary64_exponent x = Max (insert emin {e. emin \<le> e \<and> e \<le> emax \<and> 2 powi e \<le> \<bar>x\<bar>})"
proof -
  have "set (filter (\<lambda>e. 2 powi e \<le> \<bar>x\<bar>) [emin..emax]) =
        {e. emin \<le> e \<and> e \<le> emax \<and> 2 powi e \<le> \<bar>x\<bar>}" by auto
  then show ?thesis by (simp add: binary64_exponent_def fold_max_insert)
qed

lemma finite_exponents: "finite {e::int. emin \<le> e \<and> e \<le> emax \<and> P e}"
proof -
  have "{e::int. emin \<le> e \<and> e \<le> emax \<and> P e} \<subseteq> {emin..emax}" by auto
  then show ?thesis by (rule finite_subset) simp
qed

lemma binary64_exponent_cases:
  "binary64_exponent x = emin \<or> 2 powi (binary64_exponent x) \<le> \<bar>x\<bar>"
proof -
  let ?S = "insert emin {e. emin \<le> e \<and> e \<le> emax \<and> 2 powi e \<le> \<bar>x\<bar>}"
  have "Max ?S \<in> ?S" by (rule Max_in) (simp_all add: finite_exponents)
  then show ?thesis unfolding binary64_exponent_Max by auto
qed

lemma two_powi_less_cancel: "(2::rat) powi a < 2 powi b \<Longrightarrow> a < b"
proof (rule ccontr)
  assume lt: "(2::rat) powi a < 2 powi b" and "\<not> a < b"
  then have "b \<le> a" by simp
  then have "(2::rat) powi b \<le> 2 powi a" by (intro power_int_increasing) simp_all
  with lt show False by simp
qed

lemma binary64_exponent_eqI:
  assumes "2 powi e \<le> \<bar>x\<bar>" "\<bar>x\<bar> < 2 powi (e + 1)" "emin \<le> e" "e \<le> emax"
  shows "binary64_exponent x = e"
  unfolding binary64_exponent_Max
proof (rule Max_eqI)
  show "finite (insert emin {e. emin \<le> e \<and> e \<le> emax \<and> 2 powi e \<le> \<bar>x\<bar>})"
    by (simp add: finite_exponents)
  show "e \<in> insert emin {e. emin \<le> e \<and> e \<le> emax \<and> 2 powi e \<le> \<bar>x\<bar>}"
    using assms by simp
  fix y assume "y \<in> insert emin {e. emin \<le> e \<and> e \<le> emax \<and> 2 powi e \<le> \<bar>x\<bar>}"
  then consider "y = emin" | "2 powi y \<le> \<bar>x\<bar>" by auto
  then show "y \<le> e"
  proof cases
    case 1
    with assms(3) show ?thesis by simp
  next
    case 2
    with assms(2) have "(2::rat) powi y < 2 powi (e + 1)" by simp
    then have "y < e + 1" by (rule two_powi_less_cancel)
    then show ?thesis by simp
  qed
qed


lemma round_half_even_cases:
  "round_half_even x = \<lfloor>x\<rfloor> \<and> x - of_int \<lfloor>x\<rfloor> \<le> 1/2 \<or>
   round_half_even x = \<lfloor>x\<rfloor> + 1 \<and> 1/2 \<le> x - of_int \<lfloor>x\<rfloor>"
  by (auto simp: round_half_even_def Let_def)



lemma round_half_even_error: "\<bar>of_int (round_half_even x) - x\<bar> \<le> 1/2"
proof -
  have a: "of_int \<lfloor>x\<rfloor> \<le> x" and b: "x < of_int \<lfloor>x\<rfloor> + 1" by linarith+
  from round_half_even_cases [of x] show ?thesis
  proof
    assume "round_half_even x = \<lfloor>x\<rfloor> \<and> x - of_int \<lfloor>x\<rfloor> \<le> 1/2"
    with a show ?thesis by simp
  next
    assume "round_half_even x = \<lfloor>x\<rfloor> + 1 \<and> 1/2 \<le> x - of_int \<lfloor>x\<rfloor>"
    with b show ?thesis by simp
  qed
qed


lemma round_binary64_error:
  assumes "2 powi emin \<le> x"
  shows "\<bar>round_binary64 x - x\<bar> \<le> x / 2 ^ 53"
proof -
  define e where "e = binary64_exponent x"
  define u :: rat where "u = 2 powi (e - 52)"
  have upos: "0 < u" by (simp add: u_def)
  have xpos: "0 < x"
  proof -
    have "(0::rat) < 2 powi emin" by simp
    from this assms show ?thesis by (rule less_le_trans)
  qed
  have low: "2 powi e \<le> x"
    using binary64_exponent_cases [of x] assms xpos by (auto simp: e_def)
  have u: "u = 2 powi e / 2 ^ 52"
    by (simp add: u_def power_int_diff)
  have ule: "u \<le> x / 2 ^ 52" unfolding u using low by (simp add: divide_right_mono)
  have r: "round_binary64 x = of_int (round_half_even (x / u)) * u"
    by (simp add: round_binary64_def Let_def e_def u_def)
  have "round_binary64 x - x = (of_int (round_half_even (x / u)) - x / u) * u"
    using upos by (simp add: r field_simps)
  then have "\<bar>round_binary64 x - x\<bar> = \<bar>of_int (round_half_even (x / u)) - x / u\<bar> * u"
    using upos by (simp add: abs_mult)
  also have "\<dots> \<le> (1/2) * u"
    using round_half_even_error [of "x / u"] upos by (intro mult_right_mono) simp_all
  also have "\<dots> \<le> (1/2) * (x / 2 ^ 52)" using ule by simp
  also have "\<dots> = x / 2 ^ 53" by simp
  finally show ?thesis .
qed

lemma round_binary64_sixth:
  "round_binary64 (1/6) = 6004799503160661 / 36028797018963968"
proof -
  have e: "binary64_exponent (1/6) = -3"
    by (rule binary64_exponent_eqI) (simp_all add: emin_def emax_def)
  have u: "(2::rat) powi (-3 - 52) = 1 / 36028797018963968"
    by (simp add: power_int_minus)
  have q: "(1/6) / (1 / 36028797018963968 :: rat) = 36028797018963968 / 6" by simp
  have f: "\<lfloor>36028797018963968 / 6 :: rat\<rfloor> = 6004799503160661"
    by (rule floor_unique) simp_all
  have rh: "round_half_even (36028797018963968 / 6) = 6004799503160661"
    unfolding round_half_even_def Let_def f by simp
  show ?thesis
    unfolding round_binary64_def Let_def e u q rh by simp
qed

section \<open>Properties of the marker colours\<close>






section \<open>Properties of the proportional distribution table\<close>

lemma ex_six_counts:
  "combined_counts ex_six ex_area_to_region =
     Inr ([1, 2, 4, 6, 8, 10],
          [(''SS (original)'', [Some 1, Some 1, Some 1, Some 1, Some 1, Some 1])])"
  by code_simp

lemma round_binary64_zero: "round_binary64 0 = 0"
  by (simp add: round_binary64_def round_half_even_def)

lemma groupby_rows:
  assumes "(k, cells) \<in> set (snd (groupby_size_unstack ps))"
  shows "\<exists>f. cells = map f (fst (groupby_size_unstack ps)) \<and>
             (\<exists>p \<in> set (fst (groupby_size_unstack ps)). 1 \<le> f p)"
proof -
  let ?pr = "present_pairs ps"
  let ?cols = "sort (unique (map snd ?pr))"
  let ?f = "\<lambda>p. count_list ?pr (k, p)"
  from assms have k: "k \<in> fst ` set ?pr" and cells: "cells = map ?f ?cols"
    by (auto simp: groupby_size_unstack_def Let_def set_unique)
  from k obtain p where p: "(k, p) \<in> set ?pr" by force
  then have "p \<in> set ?cols" by (force simp: set_unique)
  moreover from p have "1 \<le> ?f p"
    using count_list_0_iff [of ?pr "(k, p)"] by (cases "?f p") auto
  ultimately show ?thesis using cells
    by (auto simp: groupby_size_unstack_def Let_def)
qed

lemma relabel_rows:
  assumes "(k, cells) \<in> set (snd (relabel suffix t))"
  shows "\<exists>k'. (k', cells) \<in> set (snd t)"
  using assms by (auto simp: relabel_def)

lemma fst_relabel: "fst (relabel suffix t) = fst t"
  by (simp add: relabel_def)

lemma row_sum_reindex:
  assumes "p \<in> set c" "1 \<le> f p" "set c \<subseteq> set cols"
  shows "1 \<le> row_sum (map (\<lambda>q. map_of (zip c (map f c)) q) cols)"
proof -
  have "map_of (zip c (map f c)) p = Some (f p)"
    using assms(1) by (simp add: map_of_zip_map)
  moreover have "p \<in> set cols" using assms(1,3) by blast
  ultimately have "Some (f p) \<in> set (map (\<lambda>q. map_of (zip c (map f c)) q) cols)"
    by force
  then have "f p \<in> set (dropna (map (\<lambda>q. map_of (zip c (map f c)) q) cols))"
    by (simp add: set_dropna)
  then have "f p \<le> sum_list (dropna (map (\<lambda>q. map_of (zip c (map f c)) q) cols))"
    by (rule member_le_sum_list) simp
  with assms(2) show ?thesis by (simp add: row_sum_def)
qed

lemma concat_tables_rows:
  assumes "(k, counts) \<in> set (snd (concat_tables t1 t2))"
    and "\<forall>(r, cells) \<in> set (snd t1). \<exists>f. cells = map f (fst t1) \<and> (\<exists>p \<in> set (fst t1). 1 \<le> f p)"
    and "\<forall>(r, cells) \<in> set (snd t2). \<exists>f. cells = map f (fst t2) \<and> (\<exists>p \<in> set (fst t2). 1 \<le> f p)"
  shows "1 \<le> row_sum counts"
proof -
  let ?cols = "unique (fst t1 @ fst t2)"
  from assms(1) consider
    (one) cells where "(k, cells) \<in> set (snd t1)"
      "counts = map (\<lambda>p. map_of (zip (fst t1) cells) p) ?cols"
  | (two) cells where "(k, cells) \<in> set (snd t2)"
      "counts = map (\<lambda>p. map_of (zip (fst t2) cells) p) ?cols"
    by (auto simp: concat_tables_def Let_def)
  then show ?thesis
  proof cases
    case one
    with assms(2) obtain f p where "cells = map f (fst t1)" "p \<in> set (fst t1)" "1 \<le> f p"
      by blast
    moreover have "set (fst t1) \<subseteq> set ?cols" by (simp add: set_unique)
    ultimately show ?thesis unfolding one(2) by (simp only: row_sum_reindex)
  next
    case two
    with assms(3) obtain f p where "cells = map f (fst t2)" "p \<in> set (fst t2)" "1 \<le> f p"
      by blast
    moreover have "set (fst t2) \<subseteq> set ?cols" by (simp add: set_unique)
    ultimately show ?thesis unfolding two(2) by (simp only: row_sum_reindex)
  qed
qed

lemma set_loc_labels: "set (loc_labels rws labels) \<subseteq> set rws"
  by (auto simp: loc_labels_def)

lemma relabel_groupby_rows:
  "\<forall>(r, cells) \<in> set (snd (relabel suffix (groupby_size_unstack ps))).
     \<exists>f. cells = map f (fst (relabel suffix (groupby_size_unstack ps))) \<and>
         (\<exists>p \<in> set (fst (relabel suffix (groupby_size_unstack ps))). 1 \<le> f p)"
proof (intro ballI, clarify)
  fix r cells assume "(r, cells) \<in> set (snd (relabel suffix (groupby_size_unstack ps)))"
  then obtain k where "(k, cells) \<in> set (snd (groupby_size_unstack ps))"
    using relabel_rows by blast
  from groupby_rows [OF this]
  show "\<exists>f. cells = map f (fst (relabel suffix (groupby_size_unstack ps))) \<and>
         (\<exists>p \<in> set (fst (relabel suffix (groupby_size_unstack ps))). 1 \<le> f p)"
    by (simp only: fst_relabel)
qed

lemma combined_counts_divisor:
  assumes "combined_counts df area_to_region = Inr (cols, crows)" "(k, counts) \<in> set crows"
  shows "1 \<le> row_sum counts"
proof -
  from assms(1) obtain osr where osr: "apply_extract_sota_region (map sota_ref df) = Inr osr"
    by (cases "apply_extract_sota_region (map sota_ref df)") (simp_all add: combined_counts_def)
  let ?o = "relabel '' (original)''
                 (groupby_size_unstack (zip (map Some osr) (map points df)))"
  let ?n = "relabel '' (new)''
                 (groupby_size_unstack
                    (zip (series_map area_to_region (map area df)) (map points df)))"
  from assms(1) osr have
    "crows = loc_labels (snd (concat_tables ?o ?n))
               (ordered_index (sort (remdups osr)) (map fst (snd (concat_tables ?o ?n))))"
    by (simp add: combined_counts_def Let_def)
  with assms(2) have "(k, counts) \<in> set (snd (concat_tables ?o ?n))"
    using set_loc_labels by blast
  then show ?thesis
    by (rule concat_tables_rows) (rule relabel_groupby_rows)+
qed

lemma sum_list_quotients:
  "(\<Sum>c\<leftarrow>cs. (of_nat c / of_nat s :: rat)) = of_nat (sum_list cs) / of_nat s"
  by (induction cs) (simp_all add: add_divide_distrib)

lemma fdiv_count_error:
  assumes "1 \<le> s" "s \<le> 2 ^ 53"
  shows "\<bar>fdiv (of_nat c) (of_nat s) - of_nat c / of_nat s\<bar> \<le> (of_nat c / of_nat s) / 2 ^ 53"
proof (cases "c = 0")
  case True
  then show ?thesis by (simp add: fdiv_def round_binary64_zero)
next
  case False
  have spos: "(0::rat) < of_nat s" using assms(1) by simp
  have "(of_nat s :: rat) \<le> 2 ^ 53"
  proof -
    have "(of_nat s :: rat) \<le> of_nat (2 ^ 53)" using assms(2) by (simp only: of_nat_le_iff)
    then show ?thesis by simp
  qed
  then have "1 / 2 ^ 53 \<le> 1 / (of_nat s :: rat)"
    using spos by (simp add: frac_le)
  also have "\<dots> \<le> of_nat c / of_nat s"
    using False spos by (simp add: divide_right_mono)
  finally have A: "1 / 2 ^ 53 \<le> (of_nat c / of_nat s :: rat)" .
  have B: "(2::rat) powi emin \<le> 1 / 2 ^ 53"
    by (simp add: emin_def power_int_minus field_simps)
  from B A have "2 powi emin \<le> (of_nat c / of_nat s :: rat)" by (rule order_trans)
  then show ?thesis unfolding fdiv_def by (rule round_binary64_error)
qed

lemma sum_list_abs_diff:
  fixes f g :: "'a \<Rightarrow> rat"
  assumes "\<forall>x \<in> set xs. \<bar>f x - g x\<bar> \<le> h x"
  shows "\<bar>(\<Sum>x\<leftarrow>xs. f x) - (\<Sum>x\<leftarrow>xs. g x)\<bar> \<le> (\<Sum>x\<leftarrow>xs. h x)"
  using assms
proof (induction xs)
  case Nil
  then show ?case by simp
next
  case (Cons x xs)
  then have a: "\<bar>f x - g x\<bar> \<le> h x"
    and b: "\<bar>(\<Sum>x\<leftarrow>xs. f x) - (\<Sum>x\<leftarrow>xs. g x)\<bar> \<le> (\<Sum>x\<leftarrow>xs. h x)" by simp_all
  have "\<bar>(f x + (\<Sum>x\<leftarrow>xs. f x)) - (g x + (\<Sum>x\<leftarrow>xs. g x))\<bar>
        \<le> \<bar>f x - g x\<bar> + \<bar>(\<Sum>x\<leftarrow>xs. f x) - (\<Sum>x\<leftarrow>xs. g x)\<bar>" by linarith
  with a b show ?case by simp
qed

lemma div_row_nonzero:
  assumes "s \<noteq> 0"
  shows "div_row cells s = map (map_option (\<lambda>c. fdiv (of_nat c) (of_nat s))) cells"
proof -
  have "(case cell of None \<Rightarrow> None
         | Some c \<Rightarrow> if s = 0 then None else Some (fdiv (of_nat c) (of_nat s))) =
        map_option (\<lambda>c. fdiv (of_nat c) (of_nat s)) cell" for cell
    using assms by (cases cell) simp_all
  then show ?thesis by (simp add: div_row_def)
qed

lemma dropna_map_option: "dropna (map (map_option h) xs) = map h (dropna xs)"
  by (induction xs rule: dropna.induct) simp_all

lemma dropna_div_row:
  assumes "s \<noteq> 0"
  shows "dropna (div_row cells s) = map (\<lambda>c. fdiv (of_nat c) (of_nat s)) (dropna cells)"
  unfolding div_row_nonzero [OF assms] by (rule dropna_map_option)

lemma sum_list_divide: "(\<Sum>x\<leftarrow>xs. f x / (k::rat)) = (\<Sum>x\<leftarrow>xs. f x) / k"
  by (induction xs) (simp_all add: add_divide_distrib)

lemma normalized_row_sum:
  assumes "1 \<le> row_sum cells" "row_sum cells \<le> 2 ^ 53"
  shows "\<bar>(\<Sum>x\<leftarrow>dropna (div_row cells (row_sum cells)). x) - 1\<bar> \<le> 1 / 2 ^ 53"
proof -
  let ?s = "row_sum cells"
  let ?cs = "dropna cells"
  have nz: "?s \<noteq> 0" using assms(1) by simp
  then have nz': "(of_nat ?s :: rat) \<noteq> 0" by (simp only: of_nat_eq_0_iff) simp
  have "(\<Sum>c\<leftarrow>?cs. (of_nat c / of_nat ?s :: rat)) = of_nat (sum_list ?cs) / of_nat ?s"
    by (rule sum_list_quotients)
  also have "\<dots> = of_nat ?s / of_nat ?s" by (simp only: row_sum_def)
  also have "\<dots> = 1" using nz' by (rule divide_self)
  finally have one: "(\<Sum>c\<leftarrow>?cs. (of_nat c / of_nat ?s :: rat)) = 1" .
  have "\<bar>(\<Sum>c\<leftarrow>?cs. fdiv (of_nat c) (of_nat ?s)) - (\<Sum>c\<leftarrow>?cs. of_nat c / of_nat ?s)\<bar>
        \<le> (\<Sum>c\<leftarrow>?cs. (of_nat c / of_nat ?s) / 2 ^ 53)"
  proof (rule sum_list_abs_diff)
    show "\<forall>c \<in> set ?cs. \<bar>fdiv (of_nat c) (of_nat ?s) - of_nat c / of_nat ?s\<bar>
            \<le> (of_nat c / of_nat ?s) / 2 ^ 53"
      using fdiv_count_error [OF assms] by blast
  qed
  also have "\<dots> = (\<Sum>c\<leftarrow>?cs. (of_nat c / of_nat ?s :: rat)) / 2 ^ 53"
    by (rule sum_list_divide)
  finally have "\<bar>(\<Sum>c\<leftarrow>?cs. fdiv (of_nat c) (of_nat ?s)) - 1\<bar> \<le> 1 / 2 ^ 53"
    by (simp only: one)
  moreover have "dropna (div_row cells ?s) = map (\<lambda>c. fdiv (of_nat c) (of_nat ?s)) ?cs"
    using nz by (rule dropna_div_row)
  ultimately show ?thesis by (simp add: comp_def)
qed

lemma combined_counts_total:
  assumes "list_all (\<lambda>r. sota_ref r \<noteq> None) df"
  shows "\<exists>t. combined_counts df area_to_region = Inr t"
proof -
  from assms have "list_all (\<lambda>x. x \<noteq> None) (map sota_ref df)" by (simp add: list_all_iff)
  then obtain osr where "apply_extract_sota_region (map sota_ref df) = Inr osr"
    using apply_extract_sota_region_ok by blast
  then show ?thesis by (simp add: combined_counts_def Let_def)
qed

text \<open>
  C9 as the script has it. The table exists whenever no \<^verbatim>\<open>SOTA Ref\<close> is missing. Every
  row of it is a row of counts divided by its own sum; that divisor is at least 1, so
  no division is by zero. The exact quotients of a row sum to 1. The cells are these
  quotients rounded to floats, and their sum differs from 1 by at most \<open>2\<^sup>-\<^sup>5\<^sup>3\<close> (for a
  divisor up to \<open>2\<^sup>5\<^sup>3\<close>).
\<close>

theorem percent_df_rows:
  "(list_all (\<lambda>r. sota_ref r \<noteq> None) df \<longrightarrow> (\<exists>t. percent_df df area_to_region = Inr t)) \<and>
   (percent_df df area_to_region = Inr (cols, prows) \<longrightarrow>
      (\<exists>crows. combined_counts df area_to_region = Inr (cols, crows) \<and>
         length prows = length crows \<and>
         (\<forall>i < length crows.
            fst (prows ! i) = fst (crows ! i) \<and>
            1 \<le> row_sum (snd (crows ! i)) \<and>
            snd (prows ! i) =
              map (map_option (\<lambda>c. fdiv (of_nat c) (of_nat (row_sum (snd (crows ! i))))))
                (snd (crows ! i)) \<and>
            (\<Sum>c\<leftarrow>dropna (snd (crows ! i)).
               (of_nat c / of_nat (row_sum (snd (crows ! i))) :: rat)) = 1 \<and>
            (row_sum (snd (crows ! i)) \<le> 2 ^ 53 \<longrightarrow>
               \<bar>(\<Sum>x\<leftarrow>dropna (snd (prows ! i)). x) - 1\<bar> \<le> 1 / 2 ^ 53))))"
proof (intro conjI impI)
  assume "list_all (\<lambda>r. sota_ref r \<noteq> None) df"
  then obtain t where "combined_counts df area_to_region = Inr t"
    using combined_counts_total by blast
  then show "\<exists>t. percent_df df area_to_region = Inr t"
    by (cases t) (simp add: percent_df_def)
next
  assume p: "percent_df df area_to_region = Inr (cols, prows)"
  then obtain crows where c: "combined_counts df area_to_region = Inr (cols, crows)"
    and pr: "prows = map (\<lambda>(r, cells). (r, div_row cells (row_sum cells))) crows"
    by (cases "combined_counts df area_to_region") (auto simp: percent_df_def)
  have len: "length prows = length crows" by (simp add: pr)
  have "\<forall>i < length crows.
            fst (prows ! i) = fst (crows ! i) \<and>
            1 \<le> row_sum (snd (crows ! i)) \<and>
            snd (prows ! i) =
              map (map_option (\<lambda>c. fdiv (of_nat c) (of_nat (row_sum (snd (crows ! i))))))
                (snd (crows ! i)) \<and>
            (\<Sum>c\<leftarrow>dropna (snd (crows ! i)).
               (of_nat c / of_nat (row_sum (snd (crows ! i))) :: rat)) = 1 \<and>
            (row_sum (snd (crows ! i)) \<le> 2 ^ 53 \<longrightarrow>
               \<bar>(\<Sum>x\<leftarrow>dropna (snd (prows ! i)). x) - 1\<bar> \<le> 1 / 2 ^ 53)"
  proof (intro allI impI)
    fix i assume i: "i < length crows"
    obtain r cells where rc: "crows ! i = (r, cells)" by (cases "crows ! i")
    from i have "crows ! i \<in> set crows" by (rule nth_mem)
    then have mem: "(r, cells) \<in> set crows" by (simp only: rc)
    have s1: "1 \<le> row_sum cells" using c mem by (rule combined_counts_divisor)
    then have nz: "row_sum cells \<noteq> 0" by simp
    then have nz': "(of_nat (row_sum cells) :: rat) \<noteq> 0" by (simp only: of_nat_eq_0_iff) simp
    have pi: "prows ! i = (r, div_row cells (row_sum cells))"
      using i by (simp add: pr rc)
    have cellsq: "div_row cells (row_sum cells) =
        map (map_option (\<lambda>c. fdiv (of_nat c) (of_nat (row_sum cells)))) cells"
      using nz by (rule div_row_nonzero)
    have "(\<Sum>c\<leftarrow>dropna cells. (of_nat c / of_nat (row_sum cells) :: rat)) =
          of_nat (sum_list (dropna cells)) / of_nat (row_sum cells)"
      by (rule sum_list_quotients)
    also have "\<dots> = of_nat (row_sum cells) / of_nat (row_sum cells)"
      by (simp only: row_sum_def)
    also have "\<dots> = 1" using nz' by (rule divide_self)
    finally have one: "(\<Sum>c\<leftarrow>dropna cells. (of_nat c / of_nat (row_sum cells) :: rat)) = 1" .
    have err: "row_sum cells \<le> 2 ^ 53 \<longrightarrow>
        \<bar>(\<Sum>x\<leftarrow>dropna (div_row cells (row_sum cells)). x) - 1\<bar> \<le> 1 / 2 ^ 53"
      using normalized_row_sum [OF s1] by blast
    show "fst (prows ! i) = fst (crows ! i) \<and>
            1 \<le> row_sum (snd (crows ! i)) \<and>
            snd (prows ! i) =
              map (map_option (\<lambda>c. fdiv (of_nat c) (of_nat (row_sum (snd (crows ! i))))))
                (snd (crows ! i)) \<and>
            (\<Sum>c\<leftarrow>dropna (snd (crows ! i)).
               (of_nat c / of_nat (row_sum (snd (crows ! i))) :: rat)) = 1 \<and>
            (row_sum (snd (crows ! i)) \<le> 2 ^ 53 \<longrightarrow>
               \<bar>(\<Sum>x\<leftarrow>dropna (snd (prows ! i)). x) - 1\<bar> \<le> 1 / 2 ^ 53)"
      unfolding pi rc fst_conv snd_conv using s1 cellsq one err by (intro conjI refl)
  qed
  with c len show "\<exists>crows. combined_counts df area_to_region = Inr (cols, crows) \<and>
         length prows = length crows \<and>
         (\<forall>i < length crows.
            fst (prows ! i) = fst (crows ! i) \<and>
            1 \<le> row_sum (snd (crows ! i)) \<and>
            snd (prows ! i) =
              map (map_option (\<lambda>c. fdiv (of_nat c) (of_nat (row_sum (snd (crows ! i))))))
                (snd (crows ! i)) \<and>
            (\<Sum>c\<leftarrow>dropna (snd (crows ! i)).
               (of_nat c / of_nat (row_sum (snd (crows ! i))) :: rat)) = 1 \<and>
            (row_sum (snd (crows ! i)) \<le> 2 ^ 53 \<longrightarrow>
               \<bar>(\<Sum>x\<leftarrow>dropna (snd (prows ! i)). x) - 1\<bar> \<le> 1 / 2 ^ 53))"
    by blast
qed

lemma round_half_even_near:
  assumes "\<bar>x - of_int n\<bar> < 1/2"
  shows "round_half_even x = n"
proof (cases "of_int n \<le> x")
  case True
  with assms have "x < of_int n + 1" by linarith
  with True have f: "\<lfloor>x\<rfloor> = n" by (intro floor_unique) simp_all
  from assms True have "x - of_int n < 1/2" by linarith
  then show ?thesis by (simp add: round_half_even_def Let_def f)
next
  case False
  with assms have "of_int (n - 1) \<le> x" "x < of_int (n - 1) + 1" by simp_all
  then have f: "\<lfloor>x\<rfloor> = n - 1" by (rule floor_unique)
  from assms False have "1/2 < x - of_int (n - 1)" by simp
  then show ?thesis by (simp add: round_half_even_def Let_def f)
qed

lemma round_binary64_eval:
  assumes "2 powi e \<le> \<bar>x\<bar>" "\<bar>x\<bar> < 2 powi (e + 1)" "emin \<le> e" "e \<le> emax"
    and "round_half_even (x / 2 powi (e - 52)) = n"
  shows "round_binary64 x = of_int n * 2 powi (e - 52)"
proof -
  have "binary64_exponent x = e" using assms(1-4) by (rule binary64_exponent_eqI)
  then show ?thesis by (simp add: round_binary64_def Let_def assms(5))
qed

lemma float_sum_step1:
  "fadd 0 (6004799503160661 / 36028797018963968) = 6004799503160661 / 36028797018963968"
proof -
  have "round_binary64 (6004799503160661 / 36028797018963968) =
        of_int 6004799503160661 * 2 powi (-3 - 52)"
  proof (rule round_binary64_eval)
    show "round_half_even (6004799503160661 / 36028797018963968 / 2 powi (-3 - 52)) =
          6004799503160661"
      by (rule round_half_even_near) (simp add: power_int_minus)
  qed (simp_all add: emin_def emax_def power_int_minus)
  then show ?thesis by (simp add: fadd_def power_int_minus)
qed

lemma float_sum_step2:
  "fadd (6004799503160661 / 36028797018963968) (6004799503160661 / 36028797018963968) =
     6004799503160661 / 18014398509481984"
proof -
  have "round_binary64 (6004799503160661 / 18014398509481984) =
        of_int 6004799503160661 * 2 powi (-2 - 52)"
  proof (rule round_binary64_eval)
    show "round_half_even (6004799503160661 / 18014398509481984 / 2 powi (-2 - 52)) =
          6004799503160661"
      by (rule round_half_even_near) (simp add: power_int_minus)
  qed (simp_all add: emin_def emax_def power_int_minus)
  then show ?thesis by (simp add: fadd_def power_int_minus)
qed

lemma float_sum_step3:
  "fadd (6004799503160661 / 18014398509481984) (6004799503160661 / 36028797018963968) = 1 / 2"
proof -
  have f: "\<lfloor>18014398509481983 / 2 :: rat\<rfloor> = 9007199254740991"
    by (rule floor_unique) simp_all
  have r: "round_half_even (18014398509481983 / 2) = 9007199254740992"
    unfolding round_half_even_def Let_def f by simp
  have "round_binary64 (18014398509481983 / 36028797018963968) =
        of_int 9007199254740992 * 2 powi (-2 - 52)"
  proof (rule round_binary64_eval)
    show "round_half_even (18014398509481983 / 36028797018963968 / 2 powi (-2 - 52)) =
          9007199254740992"
      using r by (simp add: power_int_minus)
  qed (simp_all add: emin_def emax_def power_int_minus)
  then show ?thesis by (simp add: fadd_def power_int_minus)
qed

lemma float_sum_step4:
  "fadd (1 / 2) (6004799503160661 / 36028797018963968) = 6004799503160661 / 9007199254740992"
proof -
  have "round_binary64 (24019198012642645 / 36028797018963968) =
        of_int 6004799503160661 * 2 powi (-1 - 52)"
  proof (rule round_binary64_eval)
    show "round_half_even (24019198012642645 / 36028797018963968 / 2 powi (-1 - 52)) =
          6004799503160661"
      by (rule round_half_even_near) (simp add: power_int_minus)
  qed (simp_all add: emin_def emax_def power_int_minus)
  then show ?thesis by (simp add: fadd_def power_int_minus)
qed

lemma float_sum_step5:
  "fadd (6004799503160661 / 9007199254740992) (6004799503160661 / 36028797018963968) =
     3752999689475413 / 4503599627370496"
proof -
  have "round_binary64 (30023997515803305 / 36028797018963968) =
        of_int 7505999378950826 * 2 powi (-1 - 52)"
  proof (rule round_binary64_eval)
    show "round_half_even (30023997515803305 / 36028797018963968 / 2 powi (-1 - 52)) =
          7505999378950826"
      by (rule round_half_even_near) (simp add: power_int_minus)
  qed (simp_all add: emin_def emax_def power_int_minus)
  then show ?thesis by (simp add: fadd_def power_int_minus)
qed

lemma float_sum_step6:
  "fadd (3752999689475413 / 4503599627370496) (6004799503160661 / 36028797018963968) =
     9007199254740991 / 9007199254740992"
proof -
  have "round_binary64 (36028797018963965 / 36028797018963968) =
        of_int 9007199254740991 * 2 powi (-1 - 52)"
  proof (rule round_binary64_eval)
    show "round_half_even (36028797018963965 / 36028797018963968 / 2 powi (-1 - 52)) =
          9007199254740991"
      by (rule round_half_even_near) (simp add: power_int_minus)
  qed (simp_all add: emin_def emax_def power_int_minus)
  then show ?thesis by (simp add: fadd_def power_int_minus)
qed

lemma fdiv_sixth: "fdiv 1 6 = 6004799503160661 / 36028797018963968"
  by (simp only: fdiv_def round_binary64_sixth)

lemma ex_six_percent:
  "percent_df ex_six ex_area_to_region =
     Inr ([1, 2, 4, 6, 8, 10], [(''SS (original)'', ex_six_cells)])"
  by (simp add: percent_df_def ex_six_counts row_sum_def div_row_def fdiv_sixth ex_six_cells_def)

text \<open>
  Six rows of one region, one for each value of \<^verbatim>\<open>Points\<close>: the row of the table has six
  cells, each the float nearest to 1/6. Their exact sum is \<open>1 - 2\<^sup>-\<^sup>5\<^sup>4\<close>, and added from left
  to right as floats they give \<open>1 - 2\<^sup>-\<^sup>5\<^sup>3\<close> (Python prints 0.9999999999999999); neither is 1.
\<close>

theorem percent_df_row_sum_counterexample:
  "map_sum id (\<lambda>t. map (\<lambda>(r, cells). (sum_list (dropna cells), float_sum (dropna cells))) (snd t))
     (percent_df ex_six ex_area_to_region) =
   Inr [(18014398509481983 / 18014398509481984, 9007199254740991 / 9007199254740992)]"
  by (simp add: ex_six_percent ex_six_cells_def float_sum_def float_sum_step1 float_sum_step2
        float_sum_step3 float_sum_step4 float_sum_step5 float_sum_step6)

theorem percent_df_rows_witness:
  "list_all (\<lambda>r. sota_ref r \<noteq> None) ex_six \<and>
   (\<exists>t. percent_df ex_six ex_area_to_region = Inr t) \<and>
   \<bar>(\<Sum>x\<leftarrow>dropna ex_six_cells. x) - 1\<bar> \<le> 1 / 2 ^ 53"
proof -
  let ?cols = "[1, 2, 4, 6, 8, 10] :: rat list"
  let ?prows = "[(''SS (original)'', ex_six_cells)]"
  have refs: "list_all (\<lambda>r. sota_ref r \<noteq> None) ex_six" by (simp add: ex_six_def)
  note inst = percent_df_rows [of ex_six ex_area_to_region ?cols ?prows]
  have total: "\<exists>t. percent_df ex_six ex_area_to_region = Inr t"
    using inst [THEN conjunct1] refs by (rule mp)
  have "\<exists>crows. combined_counts ex_six ex_area_to_region = Inr (?cols, crows) \<and>
         length ?prows = length crows \<and>
         (\<forall>i < length crows.
            fst (?prows ! i) = fst (crows ! i) \<and>
            1 \<le> row_sum (snd (crows ! i)) \<and>
            snd (?prows ! i) =
              map (map_option (\<lambda>c. fdiv (of_nat c) (of_nat (row_sum (snd (crows ! i))))))
                (snd (crows ! i)) \<and>
            (\<Sum>c\<leftarrow>dropna (snd (crows ! i)).
               (of_nat c / of_nat (row_sum (snd (crows ! i))) :: rat)) = 1 \<and>
            (row_sum (snd (crows ! i)) \<le> 2 ^ 53 \<longrightarrow>
               \<bar>(\<Sum>x\<leftarrow>dropna (snd (?prows ! i)). x) - 1\<bar> \<le> 1 / 2 ^ 53))"
    using inst [THEN conjunct2] ex_six_percent by (rule mp)
  then have "\<bar>(\<Sum>x\<leftarrow>dropna ex_six_cells. x) - 1\<bar> \<le> 1 / 2 ^ 53"
  proof (elim exE conjE)
    fix crows :: "(string \<times> nat option list) list"
    assume c: "combined_counts ex_six ex_area_to_region = Inr (?cols, crows)"
      and a: "\<forall>i < length crows.
            fst (?prows ! i) = fst (crows ! i) \<and>
            1 \<le> row_sum (snd (crows ! i)) \<and>
            snd (?prows ! i) =
              map (map_option (\<lambda>c. fdiv (of_nat c) (of_nat (row_sum (snd (crows ! i))))))
                (snd (crows ! i)) \<and>
            (\<Sum>c\<leftarrow>dropna (snd (crows ! i)).
               (of_nat c / of_nat (row_sum (snd (crows ! i))) :: rat)) = 1 \<and>
            (row_sum (snd (crows ! i)) \<le> 2 ^ 53 \<longrightarrow>
               \<bar>(\<Sum>x\<leftarrow>dropna (snd (?prows ! i)). x) - 1\<bar> \<le> 1 / 2 ^ 53)"
    from c have crows: "crows = [(''SS (original)'', [Some 1, Some 1, Some 1, Some 1, Some 1, Some 1])]"
      by (simp add: ex_six_counts)
    have l: "0 < length crows" by (simp add: crows)
    have s: "row_sum (snd (crows ! 0)) \<le> 2 ^ 53" by (simp add: crows row_sum_def)
    from a have "0 < length crows \<longrightarrow>
            fst (?prows ! 0) = fst (crows ! 0) \<and>
            1 \<le> row_sum (snd (crows ! 0)) \<and>
            snd (?prows ! 0) =
              map (map_option (\<lambda>c. fdiv (of_nat c) (of_nat (row_sum (snd (crows ! 0))))))
                (snd (crows ! 0)) \<and>
            (\<Sum>c\<leftarrow>dropna (snd (crows ! 0)).
               (of_nat c / of_nat (row_sum (snd (crows ! 0))) :: rat)) = 1 \<and>
            (row_sum (snd (crows ! 0)) \<le> 2 ^ 53 \<longrightarrow>
               \<bar>(\<Sum>x\<leftarrow>dropna (snd (?prows ! 0)). x) - 1\<bar> \<le> 1 / 2 ^ 53)"
      by (rule spec)
    from this l have "fst (?prows ! 0) = fst (crows ! 0) \<and>
            1 \<le> row_sum (snd (crows ! 0)) \<and>
            snd (?prows ! 0) =
              map (map_option (\<lambda>c. fdiv (of_nat c) (of_nat (row_sum (snd (crows ! 0))))))
                (snd (crows ! 0)) \<and>
            (\<Sum>c\<leftarrow>dropna (snd (crows ! 0)).
               (of_nat c / of_nat (row_sum (snd (crows ! 0))) :: rat)) = 1 \<and>
            (row_sum (snd (crows ! 0)) \<le> 2 ^ 53 \<longrightarrow>
               \<bar>(\<Sum>x\<leftarrow>dropna (snd (?prows ! 0)). x) - 1\<bar> \<le> 1 / 2 ^ 53)"
      by (rule mp)
    then have "row_sum (snd (crows ! 0)) \<le> 2 ^ 53 \<longrightarrow>
               \<bar>(\<Sum>x\<leftarrow>dropna (snd (?prows ! 0)). x) - 1\<bar> \<le> 1 / 2 ^ 53"
      by (elim conjE)
    from this s have "\<bar>(\<Sum>x\<leftarrow>dropna (snd (?prows ! 0)). x) - 1\<bar> \<le> 1 / 2 ^ 53"
      by (rule mp)
    then show ?thesis by (simp only: nth_Cons_0 snd_conv)
  qed
  with refs total show ?thesis by (intro conjI)
qed

lemma suffixes_differ: "r1 @ '' (original)'' \<noteq> r2 @ '' (new)''"
proof
  assume "r1 @ '' (original)'' = r2 @ '' (new)''"
  then have "rev (r1 @ '' (original)'') = rev (r2 @ '' (new)'')" by simp
  then show False by simp
qed

lemma distinct_map_append_suffix: "distinct rs \<Longrightarrow> distinct (map (\<lambda>r. r @ s) rs)"
  by (simp add: distinct_map inj_on_def)

lemma fst_relabel_rows: "map fst (snd (relabel s t)) = map (\<lambda>r. r @ s) (map fst (snd t))"
  by (simp add: relabel_def case_prod_unfold comp_def)

lemma groupby_index: "distinct (map fst (snd (groupby_size_unstack ps)))"
  by (simp add: groupby_size_unstack_def Let_def comp_def distinct_unique)

lemma concat_tables_labels:
  "map fst (snd (concat_tables t1 t2)) = map fst (snd t1) @ map fst (snd t2)"
  by (simp add: concat_tables_def Let_def case_prod_unfold comp_def)

lemma combined_labels_distinct:
  "distinct (map fst (snd (concat_tables
      (relabel '' (original)'' (groupby_size_unstack ps))
      (relabel '' (new)'' (groupby_size_unstack qs)))))"
proof -
  let ?a = "map fst (snd (groupby_size_unstack ps))"
  let ?b = "map fst (snd (groupby_size_unstack qs))"
  have "distinct (map (\<lambda>r. r @ '' (original)'') ?a)"
    using groupby_index by (rule distinct_map_append_suffix)
  moreover have "distinct (map (\<lambda>r. r @ '' (new)'') ?b)"
    using groupby_index by (rule distinct_map_append_suffix)
  moreover have "set (map (\<lambda>r. r @ '' (original)'') ?a) \<inter> set (map (\<lambda>r. r @ '' (new)'') ?b) = {}"
    using suffixes_differ by auto
  ultimately show ?thesis
    by (simp only: concat_tables_labels fst_relabel_rows distinct_append)
qed

lemma filter_label_single:
  "distinct (map fst rws) \<Longrightarrow> l \<in> set (map fst rws) \<Longrightarrow>
   map fst (filter (\<lambda>(r, cells). r = l) rws) = [l]"
proof (induction rws)
  case Nil
  then show ?case by simp
next
  case (Cons rw rws)
  show ?case
  proof (cases "fst rw = l")
    case True
    with Cons.prems(1) have "l \<notin> set (map fst rws)" by auto
    then have "filter (\<lambda>(r, cells). r = l) rws = []"
      by (force simp: filter_empty_conv)
    with True show ?thesis by (simp add: case_prod_unfold)
  next
    case False
    with Cons show ?thesis by (auto simp: case_prod_unfold)
  qed
qed

lemma loc_labels_labels:
  "distinct (map fst rws) \<Longrightarrow> set ls \<subseteq> set (map fst rws) \<Longrightarrow>
   map fst (loc_labels rws ls) = ls"
proof (induction ls)
  case Nil
  then show ?case by (simp add: loc_labels_def)
next
  case (Cons l ls)
  then have "map fst (loc_labels rws ls) = ls" by simp
  moreover have "map fst (filter (\<lambda>(r, cells). r = l) rws) = [l]"
    using Cons.prems by (intro filter_label_single) simp_all
  ultimately show ?case by (simp add: loc_labels_def)
qed

lemma set_ordered_index: "set (ordered_index regions labels) \<subseteq> set labels"
  by (auto simp: ordered_index_def split: if_splits)

lemma distinct_ordered_index:
  "distinct regions \<Longrightarrow> distinct (ordered_index regions labels)"
proof (induction regions)
  case Nil
  then show ?case by (simp add: ordered_index_def)
next
  case (Cons r rs)
  then have d: "distinct (ordered_index rs labels)" and r: "r \<notin> set rs" by simp_all
  have mem: "x \<in> set (ordered_index rs labels) \<Longrightarrow>
      \<exists>q \<in> set rs. x = q @ '' (original)'' \<or> x = q @ '' (new)''" for x
    by (auto simp: ordered_index_def split: if_splits)
  have o: "r @ '' (original)'' \<notin> set (ordered_index rs labels)"
  proof
    assume "r @ '' (original)'' \<in> set (ordered_index rs labels)"
    from mem [OF this] r suffixes_differ [of r] show False by auto
  qed
  have n: "r @ '' (new)'' \<notin> set (ordered_index rs labels)"
  proof
    assume "r @ '' (new)'' \<in> set (ordered_index rs labels)"
    from mem [OF this] obtain q where q: "q \<in> set rs"
      "r @ '' (new)'' = q @ '' (original)'' \<or> r @ '' (new)'' = q @ '' (new)''" by blast
    from q(2) show False
    proof
      assume "r @ '' (new)'' = q @ '' (original)''"
      then show False using suffixes_differ [of q r] by simp
    next
      assume "r @ '' (new)'' = q @ '' (new)''"
      then have "r = q" by simp
      with q(1) r show False by simp
    qed
  qed
  have ne: "r @ '' (original)'' \<noteq> r @ '' (new)''" by (rule suffixes_differ)
  have step: "ordered_index (r # rs) labels =
      (if r @ '' (original)'' \<in> set labels then [r @ '' (original)''] else []) @
      (if r @ '' (new)'' \<in> set labels then [r @ '' (new)''] else []) @
      ordered_index rs labels"
    by (simp add: ordered_index_def)
  show ?case unfolding step using d o n ne by (simp del: append_same_eq)
qed


lemma combined_counts_labels_distinct:
  assumes "combined_counts df area_to_region = Inr (cols, crows)"
  shows "distinct (map fst crows)"
proof -
  from assms obtain osr where osr: "apply_extract_sota_region (map sota_ref df) = Inr osr"
    by (cases "apply_extract_sota_region (map sota_ref df)") (simp_all add: combined_counts_def)
  let ?c = "concat_tables
      (relabel '' (original)'' (groupby_size_unstack (zip (map Some osr) (map points df))))
      (relabel '' (new)''
         (groupby_size_unstack (zip (series_map area_to_region (map area df)) (map points df))))"
  let ?ord = "ordered_index (sort (remdups osr)) (map fst (snd ?c))"
  from assms osr have crows: "crows = loc_labels (snd ?c) ?ord"
    by (simp add: combined_counts_def Let_def)
  have "distinct (map fst (snd ?c))" by (rule combined_labels_distinct)
  moreover have "set ?ord \<subseteq> set (map fst (snd ?c))" by (rule set_ordered_index)
  ultimately have "map fst (loc_labels (snd ?c) ?ord) = ?ord" by (rule loc_labels_labels)
  moreover have "distinct ?ord" by (rule distinct_ordered_index) simp
  ultimately show ?thesis by (simp only: crows)
qed

end
